theory Spec2Isabelle
  imports Main
begin

text \<open>
  A model of the tool-orchestration core of the chat application: the manager of tool-server
  connections (\<open>McpManager\<close>: connect with retries, disconnect, tool routing) and the agent
  loop of the API service (\<open>ApiService.sendMessage\<close>).  The manager's registry, its
  configuration and the state of the loop are passed explicitly; what throws returns
  \<open>Inl\<close>.  Everything outside the two services (the spawned processes, the protocol client,
  the model API, the clock) is a parameter that says what the outside answers.
\<close>

section \<open>JSON values and their serialisation\<close>

text \<open>
  Tool arguments, tool results and input schemas are JSON trees.  Numbers are restricted to
  integers (the source's numbers are doubles); an object is the list of its properties in
  enumeration order.
\<close>

datatype json =
    JNull
  | JBool bool
  | JNum int
  | JStr string
  | JArr "json list"
  | JObj "(string \<times> json) list"

definition dquote :: char where
  "dquote = CHR 0x22"

definition backslash :: char where
  "backslash = CHR 0x5C"

text \<open>\<open>Array.prototype.join\<close>.\<close>

fun join :: "string \<Rightarrow> string list \<Rightarrow> string" where
  "join sep [] = []"
| "join sep [x] = x"
| "join sep (x # y # ys) = x @ sep @ join sep (y # ys)"

text \<open>Decimal rendering of an integer, as a template literal or \<open>JSON.stringify\<close> prints it.\<close>

function show_nat :: "nat \<Rightarrow> string" where
  "show_nat n =
     (if n < 10 then [''0123456789'' ! n]
      else show_nat (n div 10) @ [''0123456789'' ! (n mod 10)])"
  by pat_completeness auto

termination
  by (relation "measure id") auto

definition show_int :: "int \<Rightarrow> string" where
  "show_int i = (if i < 0 then ''-'' @ show_nat (nat (- i)) else show_nat (nat i))"

text \<open>
  The escaping of one character inside a quoted JSON string: the quote, the backslash, the
  five short escapes and \<open>\u00XX\<close> for the other control characters.
\<close>

definition hex_digit :: "nat \<Rightarrow> char" where
  "hex_digit n = ''0123456789abcdef'' ! n"

definition escape_char :: "char \<Rightarrow> string" where
  "escape_char c =
     (if c = dquote then [backslash, dquote]
      else if c = backslash then [backslash, backslash]
      else if c = CHR 0x08 then [backslash, CHR ''b'']
      else if c = CHR 0x09 then [backslash, CHR ''t'']
      else if c = CHR 0x0A then [backslash, CHR ''n'']
      else if c = CHR 0x0C then [backslash, CHR ''f'']
      else if c = CHR 0x0D then [backslash, CHR ''r'']
      else if (of_char c :: nat) < 32
        then [backslash, CHR ''u'', CHR ''0'', CHR ''0'',
              hex_digit ((of_char c :: nat) div 16), hex_digit ((of_char c :: nat) mod 16)]
      else [c])"

definition quote :: "string \<Rightarrow> string" where
  "quote s = [dquote] @ concat (map escape_char s) @ [dquote]"

fun JSON_stringify :: "json \<Rightarrow> string" where
  "JSON_stringify JNull = ''null''"
| "JSON_stringify (JBool b) = (if b then ''true'' else ''false'')"
| "JSON_stringify (JNum i) = show_int i"
| "JSON_stringify (JStr s) = quote s"
| "JSON_stringify (JArr xs) = ''['' @ join '','' (map JSON_stringify xs) @ '']''"
| "JSON_stringify (JObj kvs) =
     ''{'' @ join '','' (map (\<lambda>kv. quote (fst kv) @ '':'' @ JSON_stringify (snd kv)) kvs) @ ''}''"

text \<open>\<open>String.prototype.includes\<close>.\<close>

fun str_includes :: "string \<Rightarrow> string \<Rightarrow> bool" where
  "str_includes [] needle = (needle = [])"
| "str_includes (c # cs) needle =
     (take (length needle) (c # cs) = needle \<or> str_includes cs needle)"

section \<open>Errors\<close>

text \<open>
  One constructor for each \<open>throw\<close> of the two services, \<open>External\<close> for an error raised by
  a collaborator (the protocol client, the transport, the model API) and \<open>TypeError\<close> for a
  property read on \<open>undefined\<close>.  The message texts of the source are Chinese; they are
  rendered in English here, with the same interpolated values at the same places.
\<close>

datatype err =
    ConfigNotSet
  | ServerNotInConfig string
  | InvalidServerConfig string
  | TransportCreateFailed string
  | ConnectionClosed
  | ConnectTimeout int
  | CannotConnect
  | ToolNotFound string
  | ApiKeyNotSet
  | TypeError string
  | External string

fun message :: "err \<Rightarrow> string" where
  "message ConfigNotSet = ''MCP config not set or cannot be loaded''"
| "message (ServerNotInConfig n) = ''MCP server '' @ [dquote] @ n @ [dquote] @ '' not found in config''"
| "message (InvalidServerConfig n) =
     ''MCP server '' @ [dquote] @ n @ [dquote] @ '' config invalid: command and args are required''"
| "message (TransportCreateFailed msg) = ''cannot create MCP transport: '' @ msg"
| "message ConnectionClosed =
     ''MCP server connection failed: connection closed unexpectedly, the server may have failed to start or the command is wrong''"
| "message (ConnectTimeout ms) = ''connecting to MCP server timed out ('' @ show_int ms @ ''ms)''"
| "message CannotConnect = ''cannot connect to MCP server''"
| "message (ToolNotFound n) = ''no connected MCP server supports tool '' @ [dquote] @ n @ [dquote]"
| "message ApiKeyNotSet = ''Anthropic API key not set''"
| "message (TypeError msg) = msg"
| "message (External msg) = msg"

text \<open>\<open>String(error)\<close>, as a template literal interpolates an error.\<close>

fun error_toString :: "err \<Rightarrow> string" where
  "error_toString (TypeError msg) = ''TypeError: '' @ msg"
| "error_toString e = ''Error: '' @ message e"

section \<open>The tool-server manager\<close>

record McpTool =
  tool_name :: string
  tool_description :: string
  input_schema :: json
  tool_serverName :: string

text \<open>A tool as \<open>client.listTools()\<close> reports it: the description may be absent.\<close>

record ListedTool =
  listed_name :: string
  listed_description :: "string option"
  listed_inputSchema :: json

text \<open>
  One entry of \<open>mcpServers\<close>.  The configuration is parsed JSON, so \<open>command\<close> may be
  empty and \<open>args\<close> may fail to be an array (\<open>None\<close>).
\<close>

record ServerEntry =
  command :: string
  args :: "string list option"
  env_overrides :: "(string \<times> string) list option"

type_synonym McpServerConfig = "string \<rightharpoonup> ServerEntry"

datatype StdioClientTransport = StdioClientTransport string "string list"

record McpServerConnection =
  serverName :: string
  transport :: "StdioClientTransport option"
  tools :: "McpTool list"
  isConnected :: bool

text \<open>The result object of a tool call; the orchestrator reads its \<open>content\<close>.\<close>

record CallToolResult =
  result_content :: json

text \<open>
  What the manager does to the outside world and what it prints, in order: the trace of one
  manager.  \<open>LogRetry\<close>, \<open>LogConnectFailed\<close>, \<open>LogPrepareCall\<close> and the warnings are the
  source's own console lines.
\<close>

datatype event =
    LogRetry int int
  | Sleep nat
  | LogStarting string
  | CreateTransport string "string list"
  | ClientConnect string
  | ClientListTools string
  | TransportClose string
  | ClientClose string
  | LogCloseFailed err
  | LogConnectFailed string int int err
  | LogCleanupFailed string err
  | LogPrepareCall string string json
  | ClientCallTool string string json
  | LogCallSucceeded string
  | LogCallFailed string err

text \<open>
  The registry is a \<open>Map\<close>: iteration follows insertion order, and \<open>set\<close> on a present key
  replaces the value where it stands.
\<close>

record McpManager =
  serverConnections :: "(string \<times> McpServerConnection) list"
  config :: "McpServerConfig option"
  trace :: "event list"

fun Map_get :: "('k \<times> 'v) list \<Rightarrow> 'k \<Rightarrow> 'v option" where
  "Map_get [] k = None"
| "Map_get ((k', v) # rest) k = (if k' = k then Some v else Map_get rest k)"

fun Map_set :: "'k \<Rightarrow> 'v \<Rightarrow> ('k \<times> 'v) list \<Rightarrow> ('k \<times> 'v) list" where
  "Map_set k v [] = [(k, v)]"
| "Map_set k v ((k', v') # rest) =
     (if k' = k then (k, v) # rest else (k', v') # Map_set k v rest)"

definition emit :: "event list \<Rightarrow> McpManager \<Rightarrow> McpManager" where
  "emit es m = m\<lparr>trace := trace m @ es\<rparr>"

text \<open>
  The collaborators of the manager: what the \<open>k\<close>-th connection attempt to a server meets,
  whether closing a client or a transport throws, and what a server answers to a tool call.
\<close>

datatype attempt_outcome =
    TransportThrows string
  | ConnectThrows err
  | ListToolsRejects err
  | TimerWins
  | ToolsListed "ListedTool list"

record mcp_env =
  attempt_meets :: "string \<Rightarrow> nat \<Rightarrow> attempt_outcome"
  client_close :: "string \<Rightarrow> err option"
  transport_close :: "string \<Rightarrow> err option"
  client_callTool :: "string \<Rightarrow> string \<Rightarrow> json \<Rightarrow> err + CallToolResult"

definition getConnectedServers :: "McpManager \<Rightarrow> string list" where
  "getConnectedServers m = map fst (filter (\<lambda>(_, conn). isConnected conn) (serverConnections m))"

definition isSpecificServerConnected :: "McpManager \<Rightarrow> string \<Rightarrow> bool" where
  "isSpecificServerConnected m name =
     (case Map_get (serverConnections m) name of None \<Rightarrow> False | Some conn \<Rightarrow> isConnected conn)"

definition getAllTools :: "McpManager \<Rightarrow> McpTool list" where
  "getAllTools m =
     concat (map (\<lambda>(_, conn). if isConnected conn then tools conn else []) (serverConnections m))"

definition getTools :: "McpManager \<Rightarrow> McpTool list" where
  "getTools m = getAllTools m"

definition loadConfigFromFile :: "McpManager \<Rightarrow> McpManager" where
  "loadConfigFromFile m = (case config m of Some _ \<Rightarrow> m | None \<Rightarrow> m\<lparr>config := Some Map.empty\<rparr>)"

subsection \<open>Teardown\<close>

text \<open>
  \<open>disconnectServer\<close>: the guard returns at once for an absent or disconnected name.
  Otherwise the client is closed, then the transport when there is one, each inside its own
  \<open>try\<close>; the \<open>finally\<close> block marks the connection disconnected, clears its tools and
  its transport and stores it back.
\<close>

definition disconnectServer ::
  "mcp_env \<Rightarrow> string \<Rightarrow> McpManager \<Rightarrow> (err + unit) \<times> McpManager" where
  "disconnectServer env name m =
     (case Map_get (serverConnections m) name of
        None \<Rightarrow> (Inr (), m)
      | Some connection \<Rightarrow>
          if \<not> isConnected connection then (Inr (), m)
          else
            let m1 = (case client_close env name of
                        None \<Rightarrow> emit [ClientClose name] m
                      | Some e \<Rightarrow> emit [ClientClose name, LogCloseFailed e] m);
                m2 = (case transport connection of
                        None \<Rightarrow> m1
                      | Some _ \<Rightarrow>
                          (case transport_close env name of
                             None \<Rightarrow> emit [TransportClose name] m1
                           | Some e \<Rightarrow> emit [TransportClose name, LogCloseFailed e] m1));
                connection' = connection\<lparr>isConnected := False, tools := [], transport := None\<rparr>
            in (Inr (), m2\<lparr>serverConnections := Map_set name connection' (serverConnections m2)\<rparr>))"

fun disconnectAll_loop :: "mcp_env \<Rightarrow> string list \<Rightarrow> McpManager \<Rightarrow> McpManager" where
  "disconnectAll_loop env [] m = m"
| "disconnectAll_loop env (name # names) m =
     (case disconnectServer env name m of
        (Inr _, m') \<Rightarrow> disconnectAll_loop env names m'
      | (Inl e, m') \<Rightarrow> disconnectAll_loop env names (emit [LogCleanupFailed name e] m'))"

definition disconnectAll :: "mcp_env \<Rightarrow> McpManager \<Rightarrow> McpManager" where
  "disconnectAll env m = disconnectAll_loop env (map fst (serverConnections m)) m"

subsection \<open>Connecting\<close>

text \<open>
  The body of one pass of the retry loop, up to the \<open>Promise.race\<close>: the configuration is
  checked first, then the transport is created, the client connects and lists the tools.
  Only a listing that resolves stores a connection.  The race is modelled by its outcome for
  the attempt; what the losing task does after the timer has won is not part of the model.
\<close>

definition to_McpTool :: "string \<Rightarrow> ListedTool \<Rightarrow> McpTool" where
  "to_McpTool name tool =
     \<lparr>tool_name = listed_name tool,
      tool_description = (case listed_description tool of None \<Rightarrow> [] | Some d \<Rightarrow> d),
      input_schema = listed_inputSchema tool,
      tool_serverName = name\<rparr>"

definition try_attempt ::
  "mcp_env \<Rightarrow> string \<Rightarrow> int \<Rightarrow> nat \<Rightarrow> McpManager \<Rightarrow> (err + McpTool list) \<times> McpManager" where
  "try_attempt env name timeoutMs attempt m0 =
     (let m = (case config m0 of None \<Rightarrow> loadConfigFromFile m0 | Some _ \<Rightarrow> m0) in
      case config m of
        None \<Rightarrow> (Inl ConfigNotSet, m)
      | Some cfg \<Rightarrow>
          (case cfg name of
             None \<Rightarrow> (Inl (ServerNotInConfig name), m)
           | Some serverConfig \<Rightarrow>
               (case args serverConfig of
                  None \<Rightarrow> (Inl (InvalidServerConfig name), m)
                | Some as \<Rightarrow>
                    if command serverConfig = [] then (Inl (InvalidServerConfig name), m)
                    else
                      let cmd = command serverConfig;
                          m1 = emit [LogStarting name, CreateTransport cmd as] m
                      in (case attempt_meets env name attempt of
                            TransportThrows msg \<Rightarrow>
                              (Inl (TransportCreateFailed (if msg = [] then ''unknown error'' else msg)),
                               m1)
                          | ConnectThrows e \<Rightarrow>
                              (Inl (if str_includes (message e) ''Connection closed''
                                    then ConnectionClosed else e),
                               emit [ClientConnect name] m1)
                          | ListToolsRejects e \<Rightarrow>
                              (Inl e,
                               emit ([ClientConnect name, ClientListTools name, TransportClose name] @
                                     (case transport_close env name of
                                        None \<Rightarrow> [] | Some ce \<Rightarrow> [LogCloseFailed ce])) m1)
                          | TimerWins \<Rightarrow>
                              (Inl (ConnectTimeout timeoutMs),
                               emit [ClientConnect name, ClientListTools name] m1)
                          | ToolsListed listed \<Rightarrow>
                              let serverTools = map (to_McpTool name) listed;
                                  serverConnection =
                                    \<lparr>serverName = name,
                                     transport = Some (StdioClientTransport cmd as),
                                     tools = serverTools,
                                     isConnected = True\<rparr>;
                                  m2 = emit [ClientConnect name, ClientListTools name] m1
                              in (Inr serverTools,
                                  m2\<lparr>serverConnections :=
                                        Map_set name serverConnection (serverConnections m2)\<rparr>)))))"

text \<open>
  The retry loop, \<open>for (attempt = 0; attempt <= retryCount; attempt++)\<close>: a wait of one second
  before every pass but the first, the failure logged, and the error thrown when the pass
  was the last one.  After the loop the last error is thrown.
\<close>

function connect_loop ::
  "mcp_env \<Rightarrow> string \<Rightarrow> int \<Rightarrow> int \<Rightarrow> int \<Rightarrow> err option \<Rightarrow> McpManager
     \<Rightarrow> (err + McpTool list) \<times> McpManager" where
  "connect_loop env name retryCount timeoutMs attempt lastError m =
     (if attempt \<le> retryCount then
        (let m1 = (if attempt > 0 then emit [LogRetry attempt retryCount, Sleep 1000] m else m) in
         case try_attempt env name timeoutMs (nat attempt) m1 of
           (Inr found, m2) \<Rightarrow> (Inr found, m2)
         | (Inl error, m2) \<Rightarrow>
             (let m3 = emit [LogConnectFailed name (attempt + 1) (retryCount + 1) error] m2 in
              if attempt = retryCount then (Inl error, m3)
              else connect_loop env name retryCount timeoutMs (attempt + 1) (Some error) m3))
      else (Inl (case lastError of Some e \<Rightarrow> e | None \<Rightarrow> CannotConnect), m))"
  by pat_completeness auto

termination
  by (relation "measure (\<lambda>(env, name, retryCount, timeoutMs, attempt, lastError, m).
                          nat (retryCount + 1 - attempt))") auto

declare connect_loop.simps [simp del]

text \<open>
  \<open>connectToServer\<close>: a live connection under the name is torn down first, and a failure of
  that teardown is only logged.
\<close>

definition connectToServer ::
  "mcp_env \<Rightarrow> string \<Rightarrow> int \<Rightarrow> int \<Rightarrow> McpManager \<Rightarrow> (err + McpTool list) \<times> McpManager" where
  "connectToServer env name retryCount timeoutMs m =
     (let m0 = (case Map_get (serverConnections m) name of
                  None \<Rightarrow> m
                | Some conn \<Rightarrow>
                    if isConnected conn then
                      (case disconnectServer env name m of
                         (Inr _, m') \<Rightarrow> m'
                       | (Inl e, m') \<Rightarrow> emit [LogCleanupFailed name e] m')
                    else m)
      in connect_loop env name retryCount timeoutMs 0 None m0)"

subsection \<open>Tool invocation\<close>

text \<open>The \<open>for\<close> loop of \<open>callTool\<close>, left by \<open>break\<close> at the first hit.\<close>

fun find_targetServer :: "string \<Rightarrow> McpServerConnection list \<Rightarrow> McpServerConnection option" where
  "find_targetServer name [] = None"
| "find_targetServer name (conn # rest) =
     (if isConnected conn \<and> list_ex (\<lambda>t. tool_name t = name) (tools conn) then Some conn
      else find_targetServer name rest)"

definition callTool ::
  "mcp_env \<Rightarrow> string \<Rightarrow> json \<Rightarrow> McpManager \<Rightarrow> (err + CallToolResult) \<times> McpManager" where
  "callTool env name arguments m =
     (case find_targetServer name (map snd (serverConnections m)) of
        None \<Rightarrow> (Inl (ToolNotFound name), m)
      | Some targetServer \<Rightarrow>
          let m1 = emit [LogPrepareCall name (serverName targetServer) arguments,
                         ClientCallTool (serverName targetServer) name arguments] m
          in (case client_callTool env (serverName targetServer) name arguments of
                Inr result \<Rightarrow> (Inr result, emit [LogCallSucceeded name] m1)
              | Inl error \<Rightarrow> (Inl error, emit [LogCallFailed name error] m1)))"

section \<open>The conversation orchestrator\<close>

datatype MessageRole = role_user | role_assistant | role_system

datatype content_type = type_text | type_tool_use | type_tool_result

record ToolCall =
  call_name :: string
  call_args :: json
  call_result :: "json option"

record MessageContent =
  mc_type :: content_type
  mc_text :: "string option"
  mc_tool :: "ToolCall option"

record Message =
  msg_id :: string
  msg_role :: MessageRole
  msg_content :: "MessageContent list"
  createdAt :: nat

text \<open>What the model API takes as one message: a bare string or a list of text blocks.\<close>

datatype param_body = Plain string | TextBlocks "string list"

record MessageParam =
  param_role :: MessageRole
  param_content :: param_body

record ApiTool =
  api_name :: string
  api_description :: string
  api_input_schema :: json

text \<open>
  A request to \<open>messages.create\<close>; \<open>req_tools\<close> is \<open>None\<close> when the \<open>tools\<close> and
  \<open>tool_choice\<close> keys are left out.
\<close>

record CreateParams =
  req_model :: string
  req_max_tokens :: nat
  req_messages :: "MessageParam list"
  req_tools :: "ApiTool list option"

text \<open>One item of the model's response; \<open>OtherBlock\<close> is any type the loop passes over.\<close>

datatype ContentBlock = TextBlock string | ToolUseBlock string json | OtherBlock

text \<open>
  The model API is a black box: \<open>messages_create k\<close> is what it answers to the \<open>k\<close>-th
  request of one \<open>sendMessage\<close> call (from 0), a response or a thrown error.  Any run of a
  real model is such a sequence; the requests themselves are recorded in the state.
\<close>

record api_env =
  messages_create :: "nat \<Rightarrow> err + ContentBlock list"
  clock :: nat

text \<open>The service after its initialisation attempt: whether a client exists, and the model.\<close>

record ApiService =
  anthropic :: bool
  modelName :: string

definition maxIterations :: nat where
  "maxIterations = 20"

text \<open>
  The variables of \<open>sendMessage\<close>.  \<open>requests\<close>, \<open>invoked\<close> and \<open>rounds\<close> are not in the
  source: they record the requests sent to the model, the calls made to
  \<open>mcpManager.callTool\<close>, and for every finished round its \<open>hasToolCallsThisRound\<close> and
  its \<open>tempContent\<close>.
\<close>

record loop_state =
  messageContent :: "MessageContent list"
  conversationHistory :: "MessageParam list"
  shouldContinue :: bool
  hasAnyToolCalls :: bool
  calledTools :: "(string \<times> string) list"
  hasToolCallsThisRound :: bool
  tempContent :: "MessageContent list"
  modelTextResponse :: string
  manager :: McpManager
  requests :: "CreateParams list"
  invoked :: "(string \<times> json) list"
  rounds :: "(bool \<times> MessageContent list) list"

definition text_block :: "string \<Rightarrow> MessageContent" where
  "text_block t = \<lparr>mc_type = type_text, mc_text = Some t, mc_tool = None\<rparr>"

definition toolUse_block :: "string \<Rightarrow> json \<Rightarrow> MessageContent" where
  "toolUse_block name input =
     \<lparr>mc_type = type_tool_use, mc_text = None,
      mc_tool = Some \<lparr>call_name = name, call_args = input, call_result = None\<rparr>\<rparr>"

definition toolResult_block :: "string \<Rightarrow> json \<Rightarrow> json \<Rightarrow> MessageContent" where
  "toolResult_block name input res =
     \<lparr>mc_type = type_tool_result, mc_text = None,
      mc_tool = Some \<lparr>call_name = name, call_args = input, call_result = Some res\<rparr>\<rparr>"

definition is_text :: "MessageContent \<Rightarrow> bool" where
  "is_text c = (mc_type c = type_text)"

definition text_or_empty :: "MessageContent \<Rightarrow> string" where
  "text_or_empty c = (case mc_text c of None \<Rightarrow> [] | Some t \<Rightarrow> t)"

text \<open>The texts the orchestrator writes itself (Chinese in the source).\<close>

definition repeat_notice :: "string \<Rightarrow> string" where
  "repeat_notice name =
     ''I am trying to use tool '' @ name @
     '', but the same tool seems to have been called already. Let me sort out the information obtained so far and give you an answer.''"

definition need_tool_notice :: "string \<Rightarrow> string" where
  "need_tool_notice name = ''I need to use tool '' @ name @ '' to answer your question.''"

definition tool_result_text :: "string \<Rightarrow> json \<Rightarrow> string" where
  "tool_result_text name res = ''Tool '' @ name @ '' result: '' @ JSON_stringify res"

definition tool_failed_text :: "string \<Rightarrow> err \<Rightarrow> string" where
  "tool_failed_text name e = ''Tool '' @ name @ '' call failed: '' @ error_toString e"

definition tool_failed_result :: json where
  "tool_failed_result = JObj [(''error'', JStr ''tool call failed'')]"

definition summary_prompt :: "string \<Rightarrow> string" where
  "summary_prompt question =
     ''I submitted a question and you tried several tools to answer it, but it seems to need many tool calls. Based on the information obtained so far, please summarise what you have learned and answer my question as well as you can. The original question is: '' @ question"

subsection \<open>Conversion of the caller's messages\<close>

definition to_MessageParam :: "Message \<Rightarrow> MessageParam" where
  "to_MessageParam msg =
     (case msg_content msg of
        [] \<Rightarrow> \<lparr>param_role = msg_role msg, param_content = Plain []\<rparr>
      | [c] \<Rightarrow>
          if mc_type c = type_text
          then \<lparr>param_role = msg_role msg, param_content = Plain (text_or_empty c)\<rparr>
          else \<lparr>param_role = msg_role msg,
                param_content = TextBlocks (map text_or_empty (filter is_text [c]))\<rparr>
      | cs \<Rightarrow> \<lparr>param_role = msg_role msg,
                param_content = TextBlocks (map text_or_empty (filter is_text cs))\<rparr>)"

definition to_ApiTool :: "McpTool \<Rightarrow> ApiTool" where
  "to_ApiTool tool =
     \<lparr>api_name = tool_name tool, api_description = tool_description tool,
      api_input_schema = input_schema tool\<rparr>"

subsection \<open>The memo of calls already made\<close>

text \<open>
  \<open>calledTools\<close> holds, for every call made, the tool's name and the serialised input
  \<open>JSON.stringify(content.input)\<close>, a string.  The check builds the key of the requested call
  from the name and the serialised input, and the key of a remembered call from its name and
  \<open>JSON.stringify(tool.input)\<close>, where \<open>tool.input\<close> is that remembered string.
\<close>

definition toolCallKey :: "string \<Rightarrow> json \<Rightarrow> string" where
  "toolCallKey name input = name @ '':'' @ JSON_stringify input"

definition isRepeatedCall :: "(string \<times> string) list \<Rightarrow> string \<Rightarrow> json \<Rightarrow> bool" where
  "isRepeatedCall called name input =
     list_ex (\<lambda>tool. fst tool @ '':'' @ JSON_stringify (JStr (snd tool)) = toolCallKey name input)
       called"

subsection \<open>One round\<close>

text \<open>
  The \<open>try\<close>/\<open>catch\<close> around \<open>mcpManager.callTool\<close>: the result block and the history
  entries of a call that succeeded, and those of a call that threw.
\<close>

definition execute_tool :: "mcp_env \<Rightarrow> nat \<Rightarrow> string \<Rightarrow> json \<Rightarrow> loop_state \<Rightarrow> loop_state" where
  "execute_tool env iterations name input s =
     (case callTool env name input (manager s) of
        (Inr res, m') \<Rightarrow>
          (let toolResult = toolResult_block name input (result_content res);
               history1 =
                 (if modelTextResponse s \<noteq> [] \<or> iterations = 1
                  then conversationHistory s @
                         [\<lparr>param_role = role_assistant,
                           param_content = Plain (if modelTextResponse s \<noteq> []
                                                  then modelTextResponse s
                                                  else need_tool_notice name)\<rparr>]
                  else conversationHistory s)
           in s\<lparr>manager := m',
                invoked := invoked s @ [(name, input)],
                tempContent := tempContent s @ [toolResult],
                messageContent := messageContent s @ [toolResult],
                conversationHistory := history1 @
                  [\<lparr>param_role = role_user,
                    param_content = Plain (tool_result_text name (result_content res))\<rparr>]\<rparr>)
      | (Inl error, m') \<Rightarrow>
          (let toolError = toolResult_block name input tool_failed_result;
               history1 =
                 (if modelTextResponse s \<noteq> []
                  then conversationHistory s @
                         [\<lparr>param_role = role_assistant,
                           param_content = Plain (modelTextResponse s)\<rparr>]
                  else conversationHistory s)
           in s\<lparr>manager := m',
                invoked := invoked s @ [(name, input)],
                tempContent := tempContent s @ [toolError],
                messageContent := messageContent s @ [toolError],
                conversationHistory := history1 @
                  [\<lparr>param_role = role_user,
                    param_content = Plain (tool_failed_text name error)\<rparr>]\<rparr>))"

text \<open>
  The walk over \<open>response.content\<close>.  A repeated call ends the walk (\<open>break\<close>): the rest of
  the response is not looked at.
\<close>

fun process_content :: "mcp_env \<Rightarrow> nat \<Rightarrow> ContentBlock list \<Rightarrow> loop_state \<Rightarrow> loop_state" where
  "process_content env iterations [] s = s"
| "process_content env iterations (TextBlock t # rest) s =
     process_content env iterations rest
       (s\<lparr>tempContent := tempContent s @ [text_block t], modelTextResponse := t\<rparr>)"
| "process_content env iterations (ToolUseBlock name input # rest) s =
     (if isRepeatedCall (calledTools s) name input then
        s\<lparr>modelTextResponse := repeat_notice name,
          tempContent := tempContent s @ [text_block (repeat_notice name)],
          shouldContinue := False\<rparr>
      else
        process_content env iterations rest
          (execute_tool env iterations name input
             (s\<lparr>calledTools := calledTools s @ [(name, JSON_stringify input)],
                hasToolCallsThisRound := True,
                hasAnyToolCalls := True,
                tempContent := tempContent s @ [toolUse_block name input],
                messageContent := messageContent s @ [toolUse_block name input]\<rparr>)))"
| "process_content env iterations (OtherBlock # rest) s = process_content env iterations rest s"

text \<open>What follows the walk: a round without a tool call flushes its text and ends the loop.\<close>

definition finish_round :: "loop_state \<Rightarrow> loop_state" where
  "finish_round s =
     (let s' = (if \<not> hasToolCallsThisRound s then
                  s\<lparr>messageContent := messageContent s @ filter is_text (tempContent s),
                    conversationHistory :=
                      (if modelTextResponse s \<noteq> []
                       then conversationHistory s @
                              [\<lparr>param_role = role_assistant,
                                param_content = Plain (modelTextResponse s)\<rparr>]
                       else conversationHistory s),
                    shouldContinue := False\<rparr>
                else s)
      in s'\<lparr>rounds := rounds s' @ [(hasToolCallsThisRound s, tempContent s)]\<rparr>)"

definition round_request :: "string \<Rightarrow> ApiTool list \<Rightarrow> loop_state \<Rightarrow> CreateParams" where
  "round_request model apiTools s =
     \<lparr>req_model = model, req_max_tokens = 1000, req_messages = conversationHistory s,
      req_tools = (if apiTools \<noteq> [] then Some apiTools else None)\<rparr>"

subsection \<open>The loop and what follows it\<close>

text \<open>
  \<open>while (shouldContinue && iterations < maxIterations)\<close>.  An error of the model call leaves
  \<open>sendMessage\<close>.  The loop returns the final \<open>iterations\<close> with the state.
\<close>

function tool_loop ::
  "api_env \<Rightarrow> mcp_env \<Rightarrow> string \<Rightarrow> ApiTool list \<Rightarrow> nat \<Rightarrow> loop_state \<Rightarrow> err + nat \<times> loop_state" where
  "tool_loop aenv menv model apiTools iterations s =
     (if shouldContinue s \<and> iterations < maxIterations then
        (case messages_create aenv (length (requests s)) of
           Inl e \<Rightarrow> Inl e
         | Inr response \<Rightarrow>
             tool_loop aenv menv model apiTools (iterations + 1)
               (finish_round
                  (process_content menv (iterations + 1) response
                     (s\<lparr>requests := requests s @ [round_request model apiTools s],
                        hasToolCallsThisRound := False,
                        tempContent := [],
                        modelTextResponse := []\<rparr>))))
      else Inr (iterations, s))"
  by pat_completeness auto

termination
  by (relation "measure (\<lambda>(aenv, menv, model, apiTools, iterations, s). maxIterations - iterations)")
     auto

declare tool_loop.simps [simp del]

text \<open>The summarising request after the cap: built from the text of the last message given.\<close>

definition final_summary ::
  "api_env \<Rightarrow> string \<Rightarrow> Message list \<Rightarrow> loop_state \<Rightarrow> err + loop_state" where
  "final_summary aenv model messages s =
     (if messages = [] then Inl (TypeError ''Cannot read properties of undefined (reading content)'')
      else
        let question = join '' '' (map text_or_empty (filter is_text (msg_content (last messages))));
            req = \<lparr>req_model = model, req_max_tokens = 1000,
                   req_messages = [\<lparr>param_role = role_user,
                                    param_content = Plain (summary_prompt question)\<rparr>],
                   req_tools = None\<rparr>
        in (case messages_create aenv (length (requests s)) of
              Inl e \<Rightarrow> Inl e
            | Inr finalResponse \<Rightarrow>
                (let s1 = s\<lparr>requests := requests s @ [req]\<rparr> in
                 case List.find (\<lambda>c. case c of TextBlock _ \<Rightarrow> True | _ \<Rightarrow> False) finalResponse of
                   Some (TextBlock t) \<Rightarrow> Inr (s1\<lparr>messageContent := messageContent s1 @ [text_block t]\<rparr>)
                 | _ \<Rightarrow> Inr s1)))"

text \<open>The request made when the loop left nothing at all: the given messages, no tools.\<close>

definition original_reply ::
  "api_env \<Rightarrow> string \<Rightarrow> MessageParam list \<Rightarrow> loop_state \<Rightarrow> err + loop_state" where
  "original_reply aenv model anthropicMessages s =
     (case messages_create aenv (length (requests s)) of
        Inl e \<Rightarrow> Inl e
      | Inr originalResponse \<Rightarrow>
          Inr (s\<lparr>requests := requests s @
                       [\<lparr>req_model = model, req_max_tokens = 1000,
                         req_messages = anthropicMessages, req_tools = None\<rparr>],
                   messageContent := messageContent s @
                       concat (map (\<lambda>c. case c of TextBlock t \<Rightarrow> [text_block t] | _ \<Rightarrow> [])
                                 originalResponse)\<rparr>))"

definition initial_state :: "McpManager \<Rightarrow> MessageParam list \<Rightarrow> loop_state" where
  "initial_state mgr anthropicMessages =
     \<lparr>messageContent = [], conversationHistory = anthropicMessages, shouldContinue = True,
      hasAnyToolCalls = False, calledTools = [], hasToolCallsThisRound = False,
      tempContent = [], modelTextResponse = [], manager = mgr, requests = [], invoked = [],
      rounds = []\<rparr>"

definition sendMessage ::
  "api_env \<Rightarrow> mcp_env \<Rightarrow> ApiService \<Rightarrow> McpManager \<Rightarrow> Message list \<Rightarrow> err + Message \<times> loop_state" where
  "sendMessage aenv menv svc mgr messages =
     (if \<not> anthropic svc then Inl ApiKeyNotSet
      else
        let anthropicMessages = map to_MessageParam messages;
            apiTools = map to_ApiTool (getTools mgr)
        in (case tool_loop aenv menv (modelName svc) apiTools 0 (initial_state mgr anthropicMessages) of
              Inl e \<Rightarrow> Inl e
            | Inr (iterations, s) \<Rightarrow>
                (case (if iterations \<ge> maxIterations \<and> shouldContinue s
                       then final_summary aenv (modelName svc) messages s else Inr s) of
                   Inl e \<Rightarrow> Inl e
                 | Inr s1 \<Rightarrow>
                     (case (if \<not> hasAnyToolCalls s1 \<and> messageContent s1 = []
                            then original_reply aenv (modelName svc) anthropicMessages s1
                            else Inr s1) of
                        Inl e \<Rightarrow> Inl e
                      | Inr s2 \<Rightarrow>
                          Inr (\<lparr>msg_id = show_nat (clock aenv), msg_role = role_assistant,
                                msg_content = messageContent s2, createdAt = clock aenv\<rparr>, s2)))))"

section \<open>Reference predicates and example systems\<close>

text \<open>A connection exposes a tool when it is connected and lists a tool of that name.\<close>

definition exposes :: "string \<Rightarrow> McpServerConnection \<Rightarrow> bool" where
  "exposes name conn = (isConnected conn \<and> name \<in> tool_name ` set (tools conn))"

text \<open>
  The invariant of the data model: a disconnected connection has no tools and no transport.
  It holds of the empty registry and every operation of the manager keeps it, as shown
  further down.
\<close>

definition registry_ok :: "McpManager \<Rightarrow> bool" where
  "registry_ok m =
     list_all (\<lambda>(n, c). isConnected c \<or> (tools c = [] \<and> transport c = None)) (serverConnections m)"

definition disconnected :: "McpServerConnection \<Rightarrow> McpServerConnection" where
  "disconnected c = c\<lparr>isConnected := False, tools := [], transport := None\<rparr>"

text \<open>Two connected servers: \<open>calc\<close> offers \<open>add\<close>, \<open>web\<close> offers \<open>search\<close>.\<close>

definition add_tool :: McpTool where
  "add_tool = \<lparr>tool_name = ''add'', tool_description = ''adds two numbers'',
                input_schema = JObj [], tool_serverName = ''calc''\<rparr>"

definition search_tool :: McpTool where
  "search_tool = \<lparr>tool_name = ''search'', tool_description = [],
                   input_schema = JObj [], tool_serverName = ''web''\<rparr>"

definition calc_connection :: McpServerConnection where
  "calc_connection =
     \<lparr>serverName = ''calc'', transport = Some (StdioClientTransport ''node'' [''calc.js'']),
      tools = [add_tool], isConnected = True\<rparr>"

definition web_connection :: McpServerConnection where
  "web_connection =
     \<lparr>serverName = ''web'', transport = Some (StdioClientTransport ''node'' [''web.js'']),
      tools = [search_tool], isConnected = True\<rparr>"

definition two_servers :: McpManager where
  "two_servers =
     \<lparr>serverConnections = [(''calc'', calc_connection), (''web'', web_connection)],
      config = None, trace = []\<rparr>"

text \<open>An environment where every connection attempt times out and every tool answers 4.\<close>

definition answers_four :: mcp_env where
  "answers_four =
     \<lparr>attempt_meets = (\<lambda>_ _. TimerWins), client_close = (\<lambda>_. None),
      transport_close = (\<lambda>_. None),
      client_callTool = (\<lambda>_ _ _. Inr \<lparr>result_content = JNum 4\<rparr>)\<rparr>"

text \<open>
  What the \<open>k\<close>-th pass of the retry loop yields under a configuration, read off
  \<open>try_attempt\<close> on a manager that holds nothing but that configuration; the error it
  throws, when it throws one.
\<close>

definition blank :: "McpServerConfig option \<Rightarrow> McpManager" where
  "blank cfg = \<lparr>serverConnections = [], config = cfg, trace = []\<rparr>"

definition attempt_result ::
  "mcp_env \<Rightarrow> string \<Rightarrow> int \<Rightarrow> McpServerConfig option \<Rightarrow> nat \<Rightarrow> err + McpTool list" where
  "attempt_result env name timeoutMs cfg k = fst (try_attempt env name timeoutMs k (blank cfg))"

definition attempt_error ::
  "mcp_env \<Rightarrow> string \<Rightarrow> int \<Rightarrow> McpServerConfig option \<Rightarrow> nat \<Rightarrow> err" where
  "attempt_error env name timeoutMs cfg k =
     (case attempt_result env name timeoutMs cfg k of Inl e \<Rightarrow> e | Inr _ \<Rightarrow> CannotConnect)"

text \<open>
  The launch configuration of a server is usable when the configuration is set, has an
  entry for the name, the entry's command is not empty and its \<open>args\<close> is an array.
  \<open>config_error\<close> is the error the check throws otherwise.
\<close>

definition launch_config_ok :: "McpServerConfig option \<Rightarrow> string \<Rightarrow> bool" where
  "launch_config_ok cfg name =
     (case cfg of
        None \<Rightarrow> False
      | Some c \<Rightarrow> (case c name of None \<Rightarrow> False | Some e \<Rightarrow> command e \<noteq> [] \<and> args e \<noteq> None))"

definition config_error :: "McpServerConfig option \<Rightarrow> string \<Rightarrow> err" where
  "config_error cfg name =
     (case cfg of
        None \<Rightarrow> ServerNotInConfig name
      | Some c \<Rightarrow> (case c name of None \<Rightarrow> ServerNotInConfig name | Some e \<Rightarrow> InvalidServerConfig name))"

text \<open>
  Views of the trace: the waits and the failure lines of the retry loop, and the events of
  launching a server.  \<open>retry_schedule\<close> is the pacing of passes \<open>a\<close> to \<open>retryCount\<close>
  that all fail: a wait of one second before every pass but pass 0, then the failure line
  with the pass's error.
\<close>

fun is_pacing :: "event \<Rightarrow> bool" where
  "is_pacing (Sleep _) = True"
| "is_pacing (LogConnectFailed _ _ _ _) = True"
| "is_pacing _ = False"

fun is_launch :: "event \<Rightarrow> bool" where
  "is_launch (CreateTransport _ _) = True"
| "is_launch (ClientConnect _) = True"
| "is_launch (ClientListTools _) = True"
| "is_launch _ = False"

definition retry_schedule :: "string \<Rightarrow> int \<Rightarrow> (nat \<Rightarrow> err) \<Rightarrow> nat \<Rightarrow> event list" where
  "retry_schedule name r errs a =
     concat (map (\<lambda>k. (if k > 0 then [Sleep 1000] else []) @
                       [LogConnectFailed name (int k + 1) (r + 1) (errs k)])
               [a..<nat r + 1])"

fun is_wait :: "event \<Rightarrow> bool" where
  "is_wait (Sleep _) = True"
| "is_wait _ = False"

fun is_failure_log :: "event \<Rightarrow> bool" where
  "is_failure_log (LogConnectFailed _ _ _ _) = True"
| "is_failure_log _ = False"

definition configured :: McpManager where
  "configured =
     \<lparr>serverConnections = [(''calc'', calc_connection)],
      config = Some [''calc'' \<mapsto> \<lparr>command = ''node'', args = Some [''calc.js''],
                                    env_overrides = None\<rparr>],
      trace = []\<rparr>"

definition fresh_manager :: McpManager where
  "fresh_manager = \<lparr>serverConnections = [], config = None, trace = []\<rparr>"

text \<open>The manager after the configuration was loaded, and after the teardown that opens
  \<open>connectToServer\<close>.\<close>

definition loaded :: "McpManager \<Rightarrow> McpManager" where
  "loaded m = (case config m of None \<Rightarrow> loadConfigFromFile m | Some _ \<Rightarrow> m)"

definition torn_down :: "mcp_env \<Rightarrow> string \<Rightarrow> McpManager \<Rightarrow> McpManager" where
  "torn_down env name m =
     (if isSpecificServerConnected m name then snd (disconnectServer env name m) else m)"

text \<open>Views of what \<open>sendMessage\<close> returns; empty when it throws.\<close>

definition content_of :: "err + Message \<times> loop_state \<Rightarrow> MessageContent list" where
  "content_of r = (case r of Inl _ \<Rightarrow> [] | Inr (msg, s) \<Rightarrow> msg_content msg)"


definition requests_of :: "err + Message \<times> loop_state \<Rightarrow> CreateParams list" where
  "requests_of r = (case r of Inl _ \<Rightarrow> [] | Inr (msg, s) \<Rightarrow> requests s)"

definition invoked_of :: "err + Message \<times> loop_state \<Rightarrow> (string \<times> json) list" where
  "invoked_of r = (case r of Inl _ \<Rightarrow> [] | Inr (msg, s) \<Rightarrow> invoked s)"

definition rounds_of :: "err + Message \<times> loop_state \<Rightarrow> (bool \<times> MessageContent list) list" where
  "rounds_of r = (case r of Inl _ \<Rightarrow> [] | Inr (msg, s) \<Rightarrow> rounds s)"

definition role_of :: "err + Message \<times> loop_state \<Rightarrow> MessageRole option" where
  "role_of r = (case r of Inl _ \<Rightarrow> None | Inr (msg, s) \<Rightarrow> Some (msg_role msg))"

text \<open>
  The tool calls a response asks for, in order; the blocks of the \<open>k\<close>-th response; the
  entry the memo keeps of a call.  \<open>fresh_calls called calls\<close> says that the memo check of
  \<open>sendMessage\<close> fires on none of \<open>calls\<close> when they are made in this order on top of
  the memo \<open>called\<close>.
\<close>

fun tool_uses :: "ContentBlock list \<Rightarrow> (string \<times> json) list" where
  "tool_uses [] = []"
| "tool_uses (ToolUseBlock name input # rest) = (name, input) # tool_uses rest"
| "tool_uses (TextBlock t # rest) = tool_uses rest"
| "tool_uses (OtherBlock # rest) = tool_uses rest"

definition response_blocks :: "api_env \<Rightarrow> nat \<Rightarrow> ContentBlock list" where
  "response_blocks aenv k = (case messages_create aenv k of Inl _ \<Rightarrow> [] | Inr bs \<Rightarrow> bs)"

definition memo_entry :: "string \<times> json \<Rightarrow> string \<times> string" where
  "memo_entry c = (fst c, JSON_stringify (snd c))"

fun fresh_calls :: "(string \<times> string) list \<Rightarrow> (string \<times> json) list \<Rightarrow> bool" where
  "fresh_calls called [] = True"
| "fresh_calls called (c # rest) =
     (\<not> isRepeatedCall called (fst c) (snd c) \<and> fresh_calls (called @ [memo_entry c]) rest)"

fun is_object :: "json \<Rightarrow> bool" where
  "is_object (JObj _) = True"
| "is_object _ = False"

text \<open>The text block taken from the summarising response, and the summarising request.\<close>

definition first_text :: "ContentBlock list \<Rightarrow> MessageContent list" where
  "first_text bs =
     (case List.find (\<lambda>c. case c of TextBlock _ \<Rightarrow> True | _ \<Rightarrow> False) bs of
        Some (TextBlock t) \<Rightarrow> [text_block t]
      | _ \<Rightarrow> [])"

definition summary_request :: "string \<Rightarrow> Message list \<Rightarrow> CreateParams" where
  "summary_request model messages =
     \<lparr>req_model = model, req_max_tokens = 1000,
      req_messages =
        [\<lparr>param_role = role_user,
          param_content = Plain (summary_prompt
             (join '' '' (map text_or_empty (filter is_text (msg_content (last messages))))))\<rparr>],
      req_tools = None\<rparr>"

text \<open>
  The returned content, stated from the responses alone.  \<open>produced\<close> lists the blocks one
  response gives rise to, in order, when it is walked on top of the memo \<open>called\<close>: a
  text block for a text item; for a requested call that the memo check lets pass, the
  toolUse block and the toolResult block with what the tool answered (or the failure
  result); for a call the check takes for a repeat, the notice, after which the walk stops.
  With the blocks come the memo after the walk and whether the walk was stopped.
\<close>

definition tool_outcome :: "mcp_env \<Rightarrow> McpManager \<Rightarrow> string \<Rightarrow> json \<Rightarrow> json" where
  "tool_outcome env mgr name input =
     (case fst (callTool env name input mgr) of
        Inr res \<Rightarrow> result_content res
      | Inl _ \<Rightarrow> tool_failed_result)"

definition tool_blocks :: "mcp_env \<Rightarrow> McpManager \<Rightarrow> string \<times> json \<Rightarrow> MessageContent list" where
  "tool_blocks env mgr c =
     [toolUse_block (fst c) (snd c),
      toolResult_block (fst c) (snd c) (tool_outcome env mgr (fst c) (snd c))]"

fun produced ::
  "mcp_env \<Rightarrow> McpManager \<Rightarrow> (string \<times> string) list \<Rightarrow> ContentBlock list
     \<Rightarrow> MessageContent list \<times> (string \<times> string) list \<times> bool" where
  "produced env mgr called [] = ([], called, False)"
| "produced env mgr called (TextBlock t # rest) =
     (let p = produced env mgr called rest in (text_block t # fst p, snd p))"
| "produced env mgr called (ToolUseBlock name input # rest) =
     (if isRepeatedCall called name input then ([text_block (repeat_notice name)], called, True)
      else let p = produced env mgr (called @ [(name, JSON_stringify input)]) rest
           in (tool_blocks env mgr (name, input) @ fst p, snd p))"
| "produced env mgr called (OtherBlock # rest) = produced env mgr called rest"

definition tools_of :: "MessageContent list \<Rightarrow> MessageContent list" where
  "tools_of blocks = filter (\<lambda>c. \<not> is_text c) blocks"

definition texts_of :: "MessageContent list \<Rightarrow> MessageContent list" where
  "texts_of blocks = filter is_text blocks"

text \<open>
  \<open>expected_loop\<close> puts the rounds together from round \<open>k\<close> on: a round that called no
  tool contributes its text blocks and is the last one; a round that called a tool
  contributes its toolUse and toolResult blocks only, and is followed by the next round
  unless its walk was stopped.  The flag says that the cap was reached with a tool call
  still pending.  \<open>expected_content\<close> adds what follows the loop: after the cap, the first
  text block of the summarising response (the request number \<open>maxIterations\<close>); when the
  loop left nothing at all, the text blocks of the fallback response (request number 1).
\<close>

function expected_loop ::
  "api_env \<Rightarrow> mcp_env \<Rightarrow> McpManager \<Rightarrow> nat \<Rightarrow> (string \<times> string) list
     \<Rightarrow> MessageContent list \<times> bool" where
  "expected_loop aenv menv mgr k called =
     (if k < maxIterations then
        (case messages_create aenv k of
           Inl _ \<Rightarrow> ([], False)
         | Inr bs \<Rightarrow>
             (let p = produced menv mgr called bs in
              if tools_of (fst p) = [] then (texts_of (fst p), False)
              else if snd (snd p) then (tools_of (fst p), False)
              else (tools_of (fst p) @ fst (expected_loop aenv menv mgr (k + 1) (fst (snd p))),
                    snd (expected_loop aenv menv mgr (k + 1) (fst (snd p))))))
      else ([], True))"
  by pat_completeness auto
termination
  by (relation "measure (\<lambda>(aenv, menv, mgr, k, called). maxIterations - k)") auto

declare expected_loop.simps [simp del]

definition all_text :: "ContentBlock list \<Rightarrow> MessageContent list" where
  "all_text bs = concat (map (\<lambda>c. case c of TextBlock t \<Rightarrow> [text_block t] | _ \<Rightarrow> []) bs)"

definition expected_content :: "api_env \<Rightarrow> mcp_env \<Rightarrow> McpManager \<Rightarrow> MessageContent list" where
  "expected_content aenv menv mgr =
     (let body = fst (expected_loop aenv menv mgr 0 []);
          capped = snd (expected_loop aenv menv mgr 0 [])
      in if capped then body @ first_text (response_blocks aenv maxIterations)
         else if body = [] then all_text (response_blocks aenv 1)
         else body)"

text \<open>The calls requested by the responses number \<open>i\<close> up to \<open>j\<close>, in order.\<close>

definition calls_upto :: "api_env \<Rightarrow> nat \<Rightarrow> nat \<Rightarrow> (string \<times> json) list" where
  "calls_upto aenv i j = concat (map (\<lambda>k. tool_uses (response_blocks aenv k)) [i..<j])"

text \<open>
  Example conversations.  The model \<open>asks_twice\<close> requests the same sum in its first two
  responses and then answers; \<open>asks_forever\<close> requests a new sum in every response;
  \<open>thinks_aloud\<close> writes a sentence before its request; \<open>asks_two_sums\<close> requests two
  different sums.
\<close>

definition question :: "Message list" where
  "question = [\<lparr>msg_id = ''1'', msg_role = role_user,
                msg_content = [text_block ''What is 2+2?''], createdAt = 0\<rparr>]"

definition service :: ApiService where
  "service = \<lparr>anthropic = True, modelName = ''claude''\<rparr>"

definition two_plus_two :: json where
  "two_plus_two = JObj [(''a'', JNum 2), (''b'', JNum 2)]"

definition asks_twice :: api_env where
  "asks_twice =
     \<lparr>messages_create = (\<lambda>k. if k < 2 then Inr [ToolUseBlock ''add'' two_plus_two]
                              else Inr [TextBlock ''4'']),
      clock = 0\<rparr>"

definition asks_forever :: api_env where
  "asks_forever =
     \<lparr>messages_create = (\<lambda>k. Inr [ToolUseBlock ''add'' (JObj [(''a'', JNum (int k)), (''b'', JNum 2)])]),
      clock = 0\<rparr>"

definition thinks_aloud :: api_env where
  "thinks_aloud =
     \<lparr>messages_create = (\<lambda>k. if k = 0 then Inr [TextBlock ''Let me add.'', ToolUseBlock ''add'' two_plus_two]
                              else Inr [TextBlock ''4'']),
      clock = 0\<rparr>"



lemmas example_defs = two_servers_def calc_connection_def web_connection_def add_tool_def
  search_tool_def answers_four_def

lemmas run_defs = sendMessage_def tool_loop.simps initial_state_def getTools_def getAllTools_def
  to_ApiTool_def to_MessageParam_def text_block_def maxIterations_def round_request_def
  finish_round_def isRepeatedCall_def toolCallKey_def execute_tool_def callTool_def emit_def
  Let_def toolResult_block_def toolUse_block_def is_text_def text_or_empty_def
  tool_result_text_def need_tool_notice_def repeat_notice_def quote_def escape_char_def
  dquote_def backslash_def show_int_def final_summary_def original_reply_def summary_prompt_def
  question_def service_def two_plus_two_def

lemmas expected_defs = expected_content_def expected_loop.simps tools_of_def texts_of_def
  tool_blocks_def tool_outcome_def all_text_def first_text_def response_blocks_def
  maxIterations_def isRepeatedCall_def toolCallKey_def callTool_def emit_def Let_def
  toolResult_block_def toolUse_block_def text_block_def is_text_def quote_def escape_char_def
  dquote_def backslash_def show_int_def repeat_notice_def two_plus_two_def

section \<open>The registry as a map\<close>

lemma Map_get_Map_set_same: "Map_get (Map_set k v xs) k = Some v"
  by (induction xs) auto

lemma Map_get_Map_set_other: "n \<noteq> k \<Longrightarrow> Map_get (Map_set k v xs) n = Map_get xs n"
  by (induction xs) auto

lemma Map_set_keys: "Map_get xs k = Some v' \<Longrightarrow> map fst (Map_set k v xs) = map fst xs"
  by (induction xs) (auto split: if_splits)

lemma Map_get_in_set: "Map_get xs k = Some v \<Longrightarrow> (k, v) \<in> set xs"
  by (induction xs) (auto split: if_splits)

section \<open>Tool routing\<close>

lemma find_targetServer_None:
  "(find_targetServer name conns = None) = (\<forall>c \<in> set conns. \<not> exposes name c)"
  by (induction conns) (auto simp: exposes_def list_ex_iff)

lemma find_targetServer_first:
  assumes "i < length conns" and "exposes name (conns ! i)"
    and "\<forall>j < i. \<not> exposes name (conns ! j)"
  shows "find_targetServer name conns = Some (conns ! i)"
  using assms
proof (induction conns arbitrary: i)
  case Nil
  then show ?case by simp
next
  case (Cons c cs)
  show ?case
  proof (cases i)
    case 0
    with Cons.prems show ?thesis by (auto simp: exposes_def list_ex_iff)
  next
    case (Suc k)
    with Cons.prems have "\<not> exposes name c" by auto
    moreover have "find_targetServer name cs = Some (cs ! k)"
      using Cons.prems Suc by (intro Cons.IH) auto
    ultimately show ?thesis using Suc by (auto simp: exposes_def list_ex_iff)
  qed
qed

text \<open>
  Claim C8.  \<open>callTool\<close> sends the call to the first connection, in the registry's insertion
  order, that is connected and lists a tool of the requested name: the answer is that
  server's answer and the call is recorded against that server.  When no connected
  connection lists the name it fails with \<open>ToolNotFound\<close> and changes nothing.
\<close>

theorem callTool_routing:
  "(\<forall>i. i < length (serverConnections m)
         \<and> exposes name (snd (serverConnections m ! i))
         \<and> (\<forall>j < i. \<not> exposes name (snd (serverConnections m ! j)))
      \<longrightarrow> fst (callTool env name arguments m)
            = client_callTool env (serverName (snd (serverConnections m ! i))) name arguments
        \<and> trace (snd (callTool env name arguments m)) ! (length (trace m) + 1)
            = ClientCallTool (serverName (snd (serverConnections m ! i))) name arguments)
   \<and> ((\<forall>c \<in> set (serverConnections m). \<not> exposes name (snd c))
      \<longrightarrow> callTool env name arguments m = (Inl (ToolNotFound name), m))"
proof -
  let ?conns = "map snd (serverConnections m)"
  have hit: "fst (callTool env name arguments m)
            = client_callTool env (serverName (snd (serverConnections m ! i))) name arguments
        \<and> trace (snd (callTool env name arguments m)) ! (length (trace m) + 1)
            = ClientCallTool (serverName (snd (serverConnections m ! i))) name arguments"
    if h: "i < length (serverConnections m) \<and> exposes name (snd (serverConnections m ! i))
         \<and> (\<forall>j < i. \<not> exposes name (snd (serverConnections m ! j)))" for i
  proof -
    have "find_targetServer name ?conns = Some (?conns ! i)"
      using h by (intro find_targetServer_first) auto
    then have f: "find_targetServer name ?conns = Some (snd (serverConnections m ! i))"
      using h by simp
    show ?thesis
      using f by (simp add: callTool_def Let_def emit_def nth_append split: sum.splits)
  qed
  have miss: "callTool env name arguments m = (Inl (ToolNotFound name), m)"
    if "\<forall>c \<in> set (serverConnections m). \<not> exposes name (snd c)"
  proof -
    have "find_targetServer name ?conns = None"
      using that by (simp add: find_targetServer_None)
    then show ?thesis by (simp add: callTool_def)
  qed
  from hit miss show ?thesis by blast
qed

theorem callTool_routing_witness:
  "fst (callTool answers_four ''search'' (JObj []) two_servers) = Inr \<lparr>result_content = JNum 4\<rparr>
   \<and> trace (snd (callTool answers_four ''search'' (JObj []) two_servers)) ! 1
       = ClientCallTool ''web'' ''search'' (JObj [])
   \<and> callTool answers_four ''missing'' (JObj []) two_servers
       = (Inl (ToolNotFound ''missing''), two_servers)"
proof -
  have h: "(1::nat) < length (serverConnections two_servers)
         \<and> exposes ''search'' (snd (serverConnections two_servers ! 1))
         \<and> (\<forall>j < 1. \<not> exposes ''search'' (snd (serverConnections two_servers ! j)))"
    by (simp add: example_defs exposes_def)
  have n: "\<forall>c \<in> set (serverConnections two_servers). \<not> exposes ''missing'' (snd c)"
    by (simp add: example_defs exposes_def)
  from callTool_routing [where m = two_servers and name = "''search''" and env = answers_four
      and arguments = "JObj []"] h
  have a: "fst (callTool answers_four ''search'' (JObj []) two_servers)
            = client_callTool answers_four (serverName (snd (serverConnections two_servers ! 1)))
                ''search'' (JObj [])
        \<and> trace (snd (callTool answers_four ''search'' (JObj []) two_servers))
              ! (length (trace two_servers) + 1)
            = ClientCallTool (serverName (snd (serverConnections two_servers ! 1)))
                ''search'' (JObj [])"
    by blast
  from callTool_routing [where m = two_servers and name = "''missing''" and env = answers_four
      and arguments = "JObj []"] n
  have b: "callTool answers_four ''missing'' (JObj []) two_servers
       = (Inl (ToolNotFound ''missing''), two_servers)"
    by blast
  from a b show ?thesis by (simp add: example_defs)
qed

text \<open>
  Claim C10.  A tool call leaves the registry as it was, whether the call is answered, fails
  downstream or finds no server: the connections, their flags and their tool lists are the
  same afterwards, and so is the configuration.
\<close>

theorem callTool_frame:
  "serverConnections (snd (callTool env name arguments m)) = serverConnections m
   \<and> config (snd (callTool env name arguments m)) = config m"
  by (simp add: callTool_def Let_def emit_def split: option.splits sum.splits)

section \<open>Teardown\<close>

lemma disconnectServer_registry:
  "serverConnections (snd (disconnectServer env name m)) =
     (case Map_get (serverConnections m) name of
        None \<Rightarrow> serverConnections m
      | Some c \<Rightarrow> if isConnected c then Map_set name (disconnected c) (serverConnections m)
                  else serverConnections m)"
  by (simp add: disconnectServer_def Let_def emit_def disconnected_def split: option.splits)

lemma disconnectServer_returns: "fst (disconnectServer env name m) = Inr ()"
  by (simp add: disconnectServer_def Let_def split: option.splits)

lemma disconnectServer_noop:
  "\<not> isSpecificServerConnected m name \<Longrightarrow> disconnectServer env name m = (Inr (), m)"
  by (simp add: disconnectServer_def isSpecificServerConnected_def split: option.splits)

lemma disconnectServer_not_connected:
  "\<not> isSpecificServerConnected (snd (disconnectServer env name m)) name"
  by (simp add: isSpecificServerConnected_def disconnectServer_registry Map_get_Map_set_same
      disconnected_def split: option.splits)

text \<open>
  Claim C9.  \<open>disconnectServer\<close> never throws; a second call right after the first returns
  without an effect, so the state after two calls is the state after one.  In that state the
  name is not connected, and (registries being well formed) an entry under the name has no
  tools and no transport.  On a name that is absent or already disconnected the call does
  nothing.
\<close>

theorem disconnect_idempotent:
  "fst (disconnectServer env name m) = Inr ()
   \<and> disconnectServer env name (snd (disconnectServer env name m))
       = (Inr (), snd (disconnectServer env name m))
   \<and> \<not> isSpecificServerConnected (snd (disconnectServer env name m)) name
   \<and> (registry_ok m \<longrightarrow>
        (\<forall>c. Map_get (serverConnections (snd (disconnectServer env name m))) name = Some c
             \<longrightarrow> \<not> isConnected c \<and> tools c = [] \<and> transport c = None))
   \<and> (\<not> isSpecificServerConnected m name \<longrightarrow> disconnectServer env name m = (Inr (), m))"
proof -
  have first: "fst (disconnectServer env name m) = Inr ()"
    by (rule disconnectServer_returns)
  have off: "\<not> isSpecificServerConnected (snd (disconnectServer env name m)) name"
    by (rule disconnectServer_not_connected)
  have second: "disconnectServer env name (snd (disconnectServer env name m))
          = (Inr (), snd (disconnectServer env name m))"
    using off by (rule disconnectServer_noop)
  have released: "\<not> isConnected c \<and> tools c = [] \<and> transport c = None"
    if ok: "registry_ok m"
      and c: "Map_get (serverConnections (snd (disconnectServer env name m))) name = Some c"
    for c
  proof (cases "Map_get (serverConnections m) name")
    case None
    with c show ?thesis by (simp add: disconnectServer_registry)
  next
    case (Some c0)
    show ?thesis
    proof (cases "isConnected c0")
      case True
      with Some c show ?thesis
        by (auto simp: disconnectServer_registry Map_get_Map_set_same disconnected_def)
    next
      case False
      with Some c have "c = c0" by (simp add: disconnectServer_registry)
      moreover from Some have "(name, c0) \<in> set (serverConnections m)" by (rule Map_get_in_set)
      ultimately show ?thesis using ok False
        by (auto simp: registry_ok_def list_all_iff)
    qed
  qed
  have absent: "disconnectServer env name m = (Inr (), m)"
    if "\<not> isSpecificServerConnected m name"
    using that by (rule disconnectServer_noop)
  from first second off released absent show ?thesis by blast
qed

theorem disconnect_idempotent_witness:
  "registry_ok two_servers
   \<and> Map_get (serverConnections (snd (disconnectServer answers_four ''calc'' two_servers))) ''calc''
       = Some \<lparr>serverName = ''calc'', transport = None, tools = [], isConnected = False\<rparr>
   \<and> disconnectServer answers_four ''calc'' (snd (disconnectServer answers_four ''calc'' two_servers))
       = (Inr (), snd (disconnectServer answers_four ''calc'' two_servers))
   \<and> \<not> isSpecificServerConnected two_servers ''ghost''
   \<and> disconnectServer answers_four ''ghost'' two_servers = (Inr (), two_servers)"
proof -
  have ok: "registry_ok two_servers"
    by (simp add: example_defs registry_ok_def)
  have ghost: "\<not> isSpecificServerConnected two_servers ''ghost''"
    by (simp add: example_defs isSpecificServerConnected_def)
  have entry: "Map_get (serverConnections (snd (disconnectServer answers_four ''calc'' two_servers))) ''calc''
       = Some \<lparr>serverName = ''calc'', transport = None, tools = [], isConnected = False\<rparr>"
    by (simp add: example_defs disconnectServer_def Let_def emit_def)
  have second: "disconnectServer answers_four ''calc'' (snd (disconnectServer answers_four ''calc'' two_servers))
       = (Inr (), snd (disconnectServer answers_four ''calc'' two_servers))"
    using disconnect_idempotent [of answers_four "''calc''" two_servers] ok by blast
  have noop: "disconnectServer answers_four ''ghost'' two_servers = (Inr (), two_servers)"
    using disconnect_idempotent [of answers_four "''ghost''" two_servers] ghost by blast
  from ok entry second ghost noop show ?thesis by blast
qed

section \<open>Connecting and retrying\<close>

lemma emit_simps [simp]:
  "config (emit es m) = config m"
  "serverConnections (emit es m) = serverConnections m"
  "trace (emit es m) = trace m @ es"
  by (simp_all add: emit_def)

lemma loaded_simps [simp]:
  "serverConnections (loaded m) = serverConnections m"
  "trace (loaded m) = trace m"
  "launch_config_ok (config (loaded m)) name = launch_config_ok (config m) name"
  "config_error (config (loaded m)) name = config_error (config m) name"
  by (simp_all add: loaded_def loadConfigFromFile_def launch_config_ok_def config_error_def
      split: option.splits)

lemma try_attempt_bad_config:
  assumes "\<not> launch_config_ok (config m) name"
  shows "try_attempt env name t k m = (Inl (config_error (config m) name), loaded m)"
proof (cases "config m")
  case None
  then show ?thesis
    by (simp add: try_attempt_def loaded_def loadConfigFromFile_def config_error_def)
next
  case (Some cfg)
  show ?thesis
  proof (cases "cfg name")
    case None
    with Some show ?thesis
      by (simp add: try_attempt_def loaded_def config_error_def)
  next
    case (Some e)
    with \<open>config m = Some cfg\<close> assms have "command e = [] \<or> args e = None"
      by (simp add: launch_config_ok_def)
    with Some \<open>config m = Some cfg\<close> show ?thesis
      by (auto simp: try_attempt_def loaded_def config_error_def split: option.splits)
  qed
qed

lemma launch_config_okE:
  assumes "launch_config_ok (config m) name"
  obtains cfg e as where "config m = Some cfg" and "cfg name = Some e"
    and "args e = Some as" and "command e \<noteq> []"
  using assms by (auto simp: launch_config_ok_def split: option.splits)

lemma try_attempt_good_config:
  assumes "config m = Some cfg" and "cfg name = Some e" and "args e = Some as"
    and "command e \<noteq> []"
  shows "try_attempt env name t k m =
     (let m1 = emit [LogStarting name, CreateTransport (command e) as] m in
      case attempt_meets env name k of
        TransportThrows msg \<Rightarrow>
          (Inl (TransportCreateFailed (if msg = [] then ''unknown error'' else msg)), m1)
      | ConnectThrows x \<Rightarrow>
          (Inl (if str_includes (message x) ''Connection closed'' then ConnectionClosed else x),
           emit [ClientConnect name] m1)
      | ListToolsRejects x \<Rightarrow>
          (Inl x,
           emit ([ClientConnect name, ClientListTools name, TransportClose name] @
                 (case transport_close env name of None \<Rightarrow> [] | Some ce \<Rightarrow> [LogCloseFailed ce])) m1)
      | TimerWins \<Rightarrow> (Inl (ConnectTimeout t), emit [ClientConnect name, ClientListTools name] m1)
      | ToolsListed listed \<Rightarrow>
          (Inr (map (to_McpTool name) listed),
           (emit [ClientConnect name, ClientListTools name] m1)
             \<lparr>serverConnections :=
                Map_set name
                  \<lparr>serverName = name, transport = Some (StdioClientTransport (command e) as),
                   tools = map (to_McpTool name) listed, isConnected = True\<rparr>
                  (serverConnections m)\<rparr>))"
  using assms by (simp add: try_attempt_def Let_def split: attempt_outcome.splits)

lemma try_attempt_failed_registry:
  assumes "isl (fst (try_attempt env name t k m))"
  shows "serverConnections (snd (try_attempt env name t k m)) = serverConnections m"
proof (cases "launch_config_ok (config m) name")
  case False
  then show ?thesis by (simp add: try_attempt_bad_config)
next
  case True
  then obtain cfg e as where c: "config m = Some cfg" "cfg name = Some e"
      "args e = Some as" "command e \<noteq> []"
    by (rule launch_config_okE)
  show ?thesis
    using assms
    by (cases "attempt_meets env name k") (simp_all add: try_attempt_good_config [OF c] Let_def)
qed

lemma try_attempt_pacing:
  "filter is_pacing (trace (snd (try_attempt env name t k m))) = filter is_pacing (trace m)"
proof (cases "launch_config_ok (config m) name")
  case False
  then show ?thesis by (simp add: try_attempt_bad_config)
next
  case True
  then obtain cfg e as where c: "config m = Some cfg" "cfg name = Some e"
      "args e = Some as" "command e \<noteq> []"
    by (rule launch_config_okE)
  show ?thesis
    by (cases "attempt_meets env name k")
       (simp_all add: try_attempt_good_config [OF c] Let_def split: option.splits)
qed

lemma try_attempt_config:
  "config (snd (try_attempt env name t k m)) = config (loaded m)"
proof (cases "launch_config_ok (config m) name")
  case False
  then show ?thesis by (simp add: try_attempt_bad_config)
next
  case True
  then obtain cfg e as where c: "config m = Some cfg" "cfg name = Some e"
      "args e = Some as" "command e \<noteq> []"
    by (rule launch_config_okE)
  show ?thesis
    by (cases "attempt_meets env name k")
       (simp_all add: try_attempt_good_config [OF c] Let_def loaded_def c)
qed

lemma try_attempt_fst:
  "fst (try_attempt env name t k m) = attempt_result env name t (config m) k"
proof (cases "launch_config_ok (config m) name")
  case False
  then have "\<not> launch_config_ok (config (blank (config m))) name" by (simp add: blank_def)
  with False show ?thesis
    by (simp add: attempt_result_def try_attempt_bad_config blank_def)
next
  case True
  then obtain cfg e as where c: "config m = Some cfg" "cfg name = Some e"
      "args e = Some as" "command e \<noteq> []"
    by (rule launch_config_okE)
  have c': "config (blank (config m)) = Some cfg" using c by (simp add: blank_def)
  show ?thesis
    unfolding attempt_result_def
    by (cases "attempt_meets env name k")
       (simp_all add: try_attempt_good_config [OF c] try_attempt_good_config [OF c' c(2-4)] Let_def)
qed

lemma attempt_result_loaded:
  "attempt_result env name t (config (loaded m)) k = attempt_result env name t (config m) k"
proof (cases "config m")
  case None
  have a: "\<not> launch_config_ok (config (blank None)) name"
    by (simp add: blank_def launch_config_ok_def)
  have b: "\<not> launch_config_ok (config (blank (Some Map.empty))) name"
    by (simp add: blank_def launch_config_ok_def)
  have "attempt_result env name t None k = Inl (ServerNotInConfig name)"
    unfolding attempt_result_def try_attempt_bad_config [OF a]
    by (simp add: blank_def config_error_def)
  moreover have "attempt_result env name t (Some Map.empty) k = Inl (ServerNotInConfig name)"
    unfolding attempt_result_def try_attempt_bad_config [OF b]
    by (simp add: blank_def config_error_def)
  ultimately show ?thesis
    using None by (simp add: loaded_def loadConfigFromFile_def)
next
  case (Some cfg)
  then show ?thesis by (simp add: loaded_def)
qed

lemma connect_loop_step:
  assumes "a \<le> r"
    and "try_attempt env name t (nat a) (if a > 0 then emit [LogRetry a r, Sleep 1000] m else m)
           = (x, m2)"
  shows "connect_loop env name r t a le m =
     (case x of
        Inr found \<Rightarrow> (Inr found, m2)
      | Inl error \<Rightarrow>
          if a = r then (Inl error, emit [LogConnectFailed name (a + 1) (r + 1) error] m2)
          else connect_loop env name r t (a + 1) (Some error)
                 (emit [LogConnectFailed name (a + 1) (r + 1) error] m2))"
  using assms by (subst connect_loop.simps) (simp add: Let_def split: sum.splits)

lemma connect_loop_done:
  "\<not> a \<le> r \<Longrightarrow> connect_loop env name r t a le m
     = (Inl (case le of Some e \<Rightarrow> e | None \<Rightarrow> CannotConnect), m)"
  by (subst connect_loop.simps) simp

lemma connect_loop_failed_registry:
  "isl (fst (connect_loop env name r t a le m))
     \<Longrightarrow> serverConnections (snd (connect_loop env name r t a le m)) = serverConnections m"
proof (induction "nat (r + 1 - a)" arbitrary: a le m)
  case 0
  then have "\<not> a \<le> r" by simp
  then show ?case by (simp add: connect_loop_done)
next
  case (Suc n)
  then have le: "a \<le> r" by simp
  define m1 where "m1 = (if a > 0 then emit [LogRetry a r, Sleep 1000] m else m)"
  obtain x m2 where tr: "try_attempt env name t (nat a) m1 = (x, m2)"
    by (cases "try_attempt env name t (nat a) m1")
  have reg1: "serverConnections m1 = serverConnections m" by (simp add: m1_def)
  note step = connect_loop_step [OF le tr [unfolded m1_def]]
  show ?case
  proof (cases x)
    case (Inr found)
    with Suc.prems step show ?thesis by simp
  next
    case (Inl error)
    have reg2: "serverConnections m2 = serverConnections m1"
      using try_attempt_failed_registry [of env name t "nat a" m1] tr Inl by simp
    show ?thesis
    proof (cases "a = r")
      case True
      with step Inl reg1 reg2 show ?thesis by simp
    next
      case False
      let ?m3 = "emit [LogConnectFailed name (a + 1) (r + 1) error] m2"
      have eq: "connect_loop env name r t a le m
                  = connect_loop env name r t (a + 1) (Some error) ?m3"
        using step Inl False by simp
      have "n = nat (r + 1 - (a + 1))" using Suc.hyps(2) by simp
      moreover have "isl (fst (connect_loop env name r t (a + 1) (Some error) ?m3))"
        using Suc.prems eq by simp
      ultimately have "serverConnections (snd (connect_loop env name r t (a + 1) (Some error) ?m3))
                = serverConnections ?m3"
        by (rule Suc.hyps(1))
      then show ?thesis using eq reg1 reg2 by simp
    qed
  qed
qed

lemma attempt_error_loaded:
  "attempt_error env name t (config (loaded m)) k = attempt_error env name t (config m) k"
  by (simp add: attempt_error_def attempt_result_loaded)

lemma retry_schedule_step:
  "0 \<le> a \<Longrightarrow> a \<le> r \<Longrightarrow>
   retry_schedule name r errs (nat a) =
     (if a > 0 then [Sleep 1000] else []) @ [LogConnectFailed name (a + 1) (r + 1) (errs (nat a))]
     @ retry_schedule name r errs (nat (a + 1))"
proof -
  assume a: "0 \<le> a" "a \<le> r"
  then have "nat a < nat r + 1" by simp
  then have "[nat a..<nat r + 1] = nat a # [Suc (nat a)..<nat r + 1]" by (rule upt_conv_Cons)
  moreover have "nat (a + 1) = Suc (nat a)" using a by simp
  ultimately show ?thesis using a by (simp add: retry_schedule_def)
qed

lemma retry_schedule_end: "r < a \<Longrightarrow> 0 \<le> r \<Longrightarrow> retry_schedule name r errs (nat a) = []"
  by (simp add: retry_schedule_def)

lemma connect_loop_all_fail:
  assumes "0 \<le> a" and "a \<le> r"
    and "\<forall>k. nat a \<le> k \<and> k \<le> nat r \<longrightarrow> isl (attempt_result env name t (config m) k)"
  shows "fst (connect_loop env name r t a le m) = Inl (attempt_error env name t (config m) (nat r))
       \<and> filter is_pacing (trace (snd (connect_loop env name r t a le m)))
           = filter is_pacing (trace m)
             @ retry_schedule name r (attempt_error env name t (config m)) (nat a)"
  using assms
proof (induction "nat (r - a)" arbitrary: a le m)
  case 0
  then have ar: "a = r" by simp
  define m1 where "m1 = (if a > 0 then emit [LogRetry a r, Sleep 1000] m else m)"
  obtain x m2 where tr: "try_attempt env name t (nat a) m1 = (x, m2)"
    by (cases "try_attempt env name t (nat a) m1")
  have cfg1: "config m1 = config m" by (simp add: m1_def)
  have x: "x = attempt_result env name t (config m) (nat a)"
    using try_attempt_fst [of env name t "nat a" m1] tr cfg1 by simp
  have "isl x" using x "0.prems" by simp
  then obtain error where Inl: "x = Inl error" by (cases x) auto
  then have err: "error = attempt_error env name t (config m) (nat a)"
    using x by (simp add: attempt_error_def)
  have pace2: "filter is_pacing (trace m2) = filter is_pacing (trace m1)"
    using try_attempt_pacing [of env name t "nat a" m1] tr by simp
  have sched: "retry_schedule name r (attempt_error env name t (config m)) (nat a)
      = (if a > 0 then [Sleep 1000] else []) @ [LogConnectFailed name (a + 1) (r + 1) error]"
    using retry_schedule_step [of a r name "attempt_error env name t (config m)"]
      retry_schedule_end [of r "a + 1" name "attempt_error env name t (config m)"]
      "0.prems" ar err by simp
  from connect_loop_step [OF \<open>a \<le> r\<close> tr [unfolded m1_def]] Inl ar
  have "connect_loop env name r t a le m
          = (Inl error, emit [LogConnectFailed name (a + 1) (r + 1) error] m2)" by simp
  then show ?case using err ar pace2 sched by (simp add: m1_def)
next
  case (Suc n)
  then have lt: "a < r" by simp
  define m1 where "m1 = (if a > 0 then emit [LogRetry a r, Sleep 1000] m else m)"
  obtain x m2 where tr: "try_attempt env name t (nat a) m1 = (x, m2)"
    by (cases "try_attempt env name t (nat a) m1")
  have cfg1: "config m1 = config m" by (simp add: m1_def)
  have x: "x = attempt_result env name t (config m) (nat a)"
    using try_attempt_fst [of env name t "nat a" m1] tr cfg1 by simp
  have "isl x" using x Suc.prems by simp
  then obtain error where Inl: "x = Inl error" by (cases x) auto
  then have err: "error = attempt_error env name t (config m) (nat a)"
    using x by (simp add: attempt_error_def)
  have pace2: "filter is_pacing (trace m2) = filter is_pacing (trace m1)"
    using try_attempt_pacing [of env name t "nat a" m1] tr by simp
  have cfg2: "config m2 = config (loaded m1)"
    using try_attempt_config [of env name t "nat a" m1] tr by simp
  let ?m3 = "emit [LogConnectFailed name (a + 1) (r + 1) error] m2"
  have res3: "attempt_result env name t (config m2) k = attempt_result env name t (config m) k" for k
    using cfg2 cfg1 attempt_result_loaded [of env name t m1 k] by simp
  have err3: "attempt_error env name t (config m2) = attempt_error env name t (config m)"
    using res3 by (simp add: attempt_error_def fun_eq_iff)
  from connect_loop_step [OF \<open>a \<le> r\<close> tr [unfolded m1_def]] Inl lt
  have eq: "connect_loop env name r t a le m
              = connect_loop env name r t (a + 1) (Some error) ?m3" by simp
  have "fst (connect_loop env name r t (a + 1) (Some error) ?m3)
          = Inl (attempt_error env name t (config ?m3) (nat r))
       \<and> filter is_pacing (trace (snd (connect_loop env name r t (a + 1) (Some error) ?m3)))
           = filter is_pacing (trace ?m3)
             @ retry_schedule name r (attempt_error env name t (config ?m3)) (nat (a + 1))"
  proof (rule Suc.hyps(1))
    show "n = nat (r - (a + 1))" using Suc.hyps(2) by simp
    show "0 \<le> a + 1" using Suc.prems by simp
    show "a + 1 \<le> r" using lt by simp
    show "\<forall>k. nat (a + 1) \<le> k \<and> k \<le> nat r
            \<longrightarrow> isl (attempt_result env name t (config ?m3) k)"
    proof (intro allI impI)
      fix k assume "nat (a + 1) \<le> k \<and> k \<le> nat r"
      then have "nat a \<le> k \<and> k \<le> nat r" by arith
      then have "isl (attempt_result env name t (config m) k)" using Suc.prems(3) by blast
      then show "isl (attempt_result env name t (config ?m3) k)" by (simp add: res3)
    qed
  qed
  then show ?case
    using eq err err3 pace2 Suc.prems(1,2)
      retry_schedule_step [of a r name "attempt_error env name t (config m)"]
    by (simp add: m1_def)
qed

lemma teardown_keeps:
  "config (snd (disconnectServer env name m)) = config m"
  "filter is_pacing (trace (snd (disconnectServer env name m))) = filter is_pacing (trace m)"
  "filter is_launch (trace (snd (disconnectServer env name m))) = filter is_launch (trace m)"
  by (simp_all add: disconnectServer_def Let_def split: option.splits)

lemma connectToServer_unfold:
  "connectToServer env name r t m = connect_loop env name r t 0 None (torn_down env name m)"
  by (simp add: connectToServer_def torn_down_def isSpecificServerConnected_def
      disconnectServer_returns [THEN arg_cong] Let_def
      split: option.splits prod.splits sum.splits)
     (metis disconnectServer_returns fst_conv sum.distinct(1))

lemma torn_down_keeps:
  "config (torn_down env name m) = config m"
  "filter is_pacing (trace (torn_down env name m)) = filter is_pacing (trace m)"
  "filter is_launch (trace (torn_down env name m)) = filter is_launch (trace m)"
  by (simp_all add: torn_down_def teardown_keeps)

lemma filter_wait_pacing: "filter is_wait (filter is_pacing xs) = filter is_wait xs"
  by (induction xs) (auto elim: is_wait.elims)

lemma filter_failure_pacing: "filter is_failure_log (filter is_pacing xs) = filter is_failure_log xs"
  by (induction xs) (auto elim: is_failure_log.elims)

lemma schedule_waits:
  "filter is_wait (concat (map (\<lambda>k. (if k > 0 then [Sleep 1000] else []) @
                       [LogConnectFailed name (int k + 1) r' (errs k)]) [0..<n]))
     = replicate (n - 1) (Sleep 1000)"
  (is "?F n = _")
proof (induction n)
  case 0
  show ?case by simp
next
  case (Suc n)
  have "?F (Suc n) = ?F n @ (if n > 0 then [Sleep 1000] else [])" by simp
  also have "\<dots> = replicate (n - 1) (Sleep 1000) @ (if n > 0 then [Sleep 1000] else [])"
    by (simp only: Suc.IH)
  also have "\<dots> = replicate (Suc n - 1) (Sleep 1000)"
    by (cases n) (simp_all add: replicate_append_same)
  finally show ?case .
qed

lemma schedule_failures:
  "length (filter is_failure_log (concat (map (\<lambda>k. (if k > 0 then [Sleep 1000] else []) @
                       [LogConnectFailed name (int k + 1) r' (errs k)]) [0..<n]))) = n"
  by (induction n) auto

lemma retry_schedule_waits:
  "filter is_wait (retry_schedule name r errs 0) = replicate (nat r) (Sleep 1000)"
  unfolding retry_schedule_def by (simp only: schedule_waits) simp

lemma retry_schedule_failures:
  "length (filter is_failure_log (retry_schedule name r errs 0)) = nat r + 1"
  unfolding retry_schedule_def by (simp only: schedule_failures)

lemma connectToServer_all_fail:
  assumes "0 \<le> r"
    and "\<forall>k \<le> nat r. isl (attempt_result env name t (config m) k)"
  shows "fst (connectToServer env name r t m) = Inl (attempt_error env name t (config m) (nat r))
       \<and> filter is_pacing (trace (snd (connectToServer env name r t m)))
           = filter is_pacing (trace m) @ retry_schedule name r (attempt_error env name t (config m)) 0
       \<and> length (filter is_failure_log (trace (snd (connectToServer env name r t m))))
           = length (filter is_failure_log (trace m)) + (nat r + 1)
       \<and> filter is_wait (trace (snd (connectToServer env name r t m)))
           = filter is_wait (trace m) @ replicate (nat r) (Sleep 1000)"
proof -
  let ?m0 = "torn_down env name m"
  let ?out = "connect_loop env name r t 0 None ?m0"
  have "fst ?out = Inl (attempt_error env name t (config ?m0) (nat r))
       \<and> filter is_pacing (trace (snd ?out))
           = filter is_pacing (trace ?m0)
             @ retry_schedule name r (attempt_error env name t (config ?m0)) (nat 0)"
    using assms by (intro connect_loop_all_fail) (simp_all add: torn_down_keeps)
  then have main: "fst ?out = Inl (attempt_error env name t (config m) (nat r))"
    and pace: "filter is_pacing (trace (snd ?out))
           = filter is_pacing (trace m) @ retry_schedule name r (attempt_error env name t (config m)) 0"
    by (simp_all add: torn_down_keeps)
  have "filter is_failure_log (trace (snd ?out))
          = filter is_failure_log (filter is_pacing (trace (snd ?out)))"
    by (simp only: filter_failure_pacing)
  then have fails: "length (filter is_failure_log (trace (snd ?out)))
           = length (filter is_failure_log (trace m)) + (nat r + 1)"
    unfolding pace
    by (simp add: filter_failure_pacing retry_schedule_failures del: filter_filter)
  have "filter is_wait (trace (snd ?out)) = filter is_wait (filter is_pacing (trace (snd ?out)))"
    by (simp only: filter_wait_pacing)
  then have waits: "filter is_wait (trace (snd ?out))
           = filter is_wait (trace m) @ replicate (nat r) (Sleep 1000)"
    unfolding pace
    by (simp add: filter_wait_pacing retry_schedule_waits del: filter_filter)
  from main pace fails waits show ?thesis by (simp add: connectToServer_unfold)
qed

lemma attempt_result_bad_config:
  "\<not> launch_config_ok cfg name \<Longrightarrow> attempt_result env name t cfg k = Inl (config_error cfg name)"
proof -
  assume "\<not> launch_config_ok cfg name"
  then have "\<not> launch_config_ok (config (blank cfg)) name" by (simp add: blank_def)
  then show ?thesis
    unfolding attempt_result_def by (simp add: try_attempt_bad_config) (simp add: blank_def)
qed

lemma connect_loop_bad_config_launch:
  assumes "\<not> launch_config_ok (config m) name"
  shows "filter is_launch (trace (snd (connect_loop env name r t a le m)))
           = filter is_launch (trace m)"
  using assms
proof (induction "nat (r + 1 - a)" arbitrary: a le m)
  case 0
  then have "\<not> a \<le> r" by simp
  then show ?case by (simp add: connect_loop_done)
next
  case (Suc n)
  then have le: "a \<le> r" by simp
  define m1 where "m1 = (if a > 0 then emit [LogRetry a r, Sleep 1000] m else m)"
  have bad1: "\<not> launch_config_ok (config m1) name" using Suc.prems by (simp add: m1_def)
  have tr: "try_attempt env name t (nat a) m1 = (Inl (config_error (config m1) name), loaded m1)"
    using bad1 by (rule try_attempt_bad_config)
  let ?m3 = "emit [LogConnectFailed name (a + 1) (r + 1) (config_error (config m1) name)] (loaded m1)"
  have l3: "filter is_launch (trace ?m3) = filter is_launch (trace m)" by (simp add: m1_def)
  note step = connect_loop_step [OF le tr [unfolded m1_def], folded m1_def]
  show ?case
  proof (cases "a = r")
    case True
    with step l3 show ?thesis by simp
  next
    case False
    have "filter is_launch (trace (snd (connect_loop env name r t (a + 1)
              (Some (config_error (config m1) name)) ?m3))) = filter is_launch (trace ?m3)"
    proof (rule Suc.hyps(1))
      show "n = nat (r + 1 - (a + 1))" using Suc.hyps(2) by simp
      show "\<not> launch_config_ok (config ?m3) name" using bad1 by simp
    qed
    with step False l3 show ?thesis by simp
  qed
qed

text \<open>
  Claim C7.  When every pass of a connect with retry count \<open>r \<ge> 0\<close> fails, the call throws
  the error of the last pass, pass \<open>r\<close>.  It logs \<open>r + 1\<close> failed attempts and waits
  \<open>r\<close> times, one second each; the waits and the failure lines alternate as
  \<open>retry_schedule\<close> lays them out, a wait between any two attempts.
\<close>

theorem connect_retry_ceiling:
  assumes "0 \<le> r"
    and "\<forall>k \<le> nat r. isl (attempt_result env name t (config m) k)"
  shows "fst (connectToServer env name r t m) = Inl (attempt_error env name t (config m) (nat r))
       \<and> filter is_pacing (trace (snd (connectToServer env name r t m)))
           = filter is_pacing (trace m) @ retry_schedule name r (attempt_error env name t (config m)) 0
       \<and> length (filter is_failure_log (trace (snd (connectToServer env name r t m))))
           = length (filter is_failure_log (trace m)) + (nat r + 1)
       \<and> filter is_wait (trace (snd (connectToServer env name r t m)))
           = filter is_wait (trace m) @ replicate (nat r) (Sleep 1000)"
  using assms by (rule connectToServer_all_fail)

lemma schedule_of_two:
  "retry_schedule name 2 errs 0 =
     [LogConnectFailed name 1 3 (errs 0), Sleep 1000, LogConnectFailed name 2 3 (errs 1),
      Sleep 1000, LogConnectFailed name 3 3 (errs 2)]"
proof -
  have "[0..<nat 2 + 1] = [0, 1, 2]" by (simp add: upt_rec)
  then show ?thesis by (simp add: retry_schedule_def)
qed

theorem connect_retry_ceiling_witness:
  "fst (connectToServer answers_four ''calc'' 2 10000 configured) = Inl (ConnectTimeout 10000)
   \<and> filter is_pacing (trace (snd (connectToServer answers_four ''calc'' 2 10000 configured)))
       = [LogConnectFailed ''calc'' 1 3 (ConnectTimeout 10000), Sleep 1000,
          LogConnectFailed ''calc'' 2 3 (ConnectTimeout 10000), Sleep 1000,
          LogConnectFailed ''calc'' 3 3 (ConnectTimeout 10000)]
   \<and> filter is_wait (trace (snd (connectToServer answers_four ''calc'' 2 10000 configured)))
       = [Sleep 1000, Sleep 1000]"
proof -
  have res: "attempt_result answers_four ''calc'' 10000 (config configured) k
               = Inl (ConnectTimeout 10000)" for k
    by (simp add: attempt_result_def try_attempt_def blank_def configured_def answers_four_def
        Let_def)
  have h: "\<forall>k \<le> nat 2. isl (attempt_result answers_four ''calc'' 10000 (config configured) k)"
    by (simp add: res)
  have e: "attempt_error answers_four ''calc'' 10000 (config configured) k = ConnectTimeout 10000"
    for k by (simp add: attempt_error_def res)
  have t: "trace configured = []" by (simp add: configured_def)
  from connect_retry_ceiling [of 2 answers_four "''calc''" 10000 configured, OF _ h]
  show ?thesis by (simp add: e t schedule_of_two numeral_2_eq_2)
qed

text \<open>
  Claim C3, as stated, fails: the configuration check stands inside the retry loop.  With no
  configuration for \<open>files\<close> and the default retry count 2, the check fails three times
  and the call waits twice before it throws.
\<close>

theorem config_error_counterexample:
  "\<not> launch_config_ok (config fresh_manager) ''files''
   \<and> trace (snd (connectToServer answers_four ''files'' 2 10000 fresh_manager))
       = [LogConnectFailed ''files'' 1 3 (ServerNotInConfig ''files''),
          LogRetry 1 2, Sleep 1000,
          LogConnectFailed ''files'' 2 3 (ServerNotInConfig ''files''),
          LogRetry 2 2, Sleep 1000,
          LogConnectFailed ''files'' 3 3 (ServerNotInConfig ''files'')]"
  by (simp add: launch_config_ok_def fresh_manager_def connectToServer_def connect_loop.simps
      try_attempt_def loadConfigFromFile_def emit_def Let_def)

text \<open>
  Claim C3, amended.  With a missing or invalid launch configuration, connect fails with the
  configuration error and never creates a transport nor starts a client (nothing is spawned,
  on any pass); the check is repeated on every pass of the retry loop, so for a retry count
  \<open>r \<ge> 0\<close> the error is thrown after \<open>r + 1\<close> checks and \<open>r\<close> waits of one second.
\<close>

theorem config_error_retried:
  assumes "\<not> launch_config_ok (config m) name" and "0 \<le> r"
  shows "fst (connectToServer env name r t m) = Inl (config_error (config m) name)
       \<and> filter is_launch (trace (snd (connectToServer env name r t m)))
           = filter is_launch (trace m)
       \<and> filter is_pacing (trace (snd (connectToServer env name r t m)))
           = filter is_pacing (trace m) @ retry_schedule name r (\<lambda>k. config_error (config m) name) 0
       \<and> filter is_wait (trace (snd (connectToServer env name r t m)))
           = filter is_wait (trace m) @ replicate (nat r) (Sleep 1000)"
proof -
  have res: "attempt_result env name t (config m) k = Inl (config_error (config m) name)" for k
    using assms(1) by (rule attempt_result_bad_config)
  then have err: "attempt_error env name t (config m) = (\<lambda>k. config_error (config m) name)"
    by (simp add: attempt_error_def fun_eq_iff)
  have "\<forall>k \<le> nat r. isl (attempt_result env name t (config m) k)" by (simp add: res)
  note all = connectToServer_all_fail [OF assms(2) this]
  have "\<not> launch_config_ok (config (torn_down env name m)) name"
    using assms(1) by (simp add: torn_down_keeps)
  then have "filter is_launch (trace (snd (connectToServer env name r t m)))
           = filter is_launch (trace m)"
    by (simp add: connectToServer_unfold connect_loop_bad_config_launch torn_down_keeps)
  with all show ?thesis by (simp add: err)
qed

theorem config_error_retried_witness:
  "fst (connectToServer answers_four ''files'' 2 10000 fresh_manager)
     = Inl (ServerNotInConfig ''files'')
   \<and> filter is_launch (trace (snd (connectToServer answers_four ''files'' 2 10000 fresh_manager))) = []
   \<and> filter is_wait (trace (snd (connectToServer answers_four ''files'' 2 10000 fresh_manager)))
       = [Sleep 1000, Sleep 1000]"
proof -
  have bad: "\<not> launch_config_ok (config fresh_manager) ''files''"
    by (simp add: launch_config_ok_def fresh_manager_def)
  have ce: "config_error (config fresh_manager) ''files'' = ServerNotInConfig ''files''"
    by (simp add: config_error_def fresh_manager_def)
  have t: "trace fresh_manager = []" by (simp add: fresh_manager_def)
  from config_error_retried [of fresh_manager "''files''" 2 answers_four 10000, OF bad]
  show ?thesis by (simp add: ce t numeral_2_eq_2)
qed

text \<open>
  Claim C4, as stated, fails where a live connection exists under the name: it is torn down
  before the first pass, and a connect whose passes all time out leaves the entry
  disconnected, without tools and without transport.
\<close>

theorem failed_connect_counterexample:
  "isl (fst (connectToServer answers_four ''calc'' 2 10000 configured))
   \<and> serverConnections configured = [(''calc'', calc_connection)]
   \<and> isConnected calc_connection
   \<and> serverConnections (snd (connectToServer answers_four ''calc'' 2 10000 configured))
       = [(''calc'', \<lparr>serverName = ''calc'', transport = None, tools = [], isConnected = False\<rparr>)]"
  by (simp add: configured_def calc_connection_def answers_four_def connectToServer_def
      connect_loop.simps try_attempt_def disconnectServer_def emit_def Let_def)

text \<open>
  Claim C4, amended.  A connect that fails leaves the registry as the opening teardown left
  it: unchanged when no live connection stood under the name, and otherwise changed only in
  that entry, which is marked disconnected with its tools and transport cleared.  No entry
  is added or removed, and every other name keeps its entry.
\<close>

theorem failed_connect_registry:
  assumes "isl (fst (connectToServer env name r t m))"
  shows "serverConnections (snd (connectToServer env name r t m))
           = (case Map_get (serverConnections m) name of
                None \<Rightarrow> serverConnections m
              | Some c \<Rightarrow> if isConnected c
                          then Map_set name (disconnected c) (serverConnections m)
                          else serverConnections m)
       \<and> map fst (serverConnections (snd (connectToServer env name r t m)))
           = map fst (serverConnections m)
       \<and> (\<forall>n. n \<noteq> name \<longrightarrow> Map_get (serverConnections (snd (connectToServer env name r t m))) n
                              = Map_get (serverConnections m) n)"
proof -
  have "serverConnections (snd (connectToServer env name r t m))
          = serverConnections (torn_down env name m)"
    using assms by (simp add: connectToServer_unfold connect_loop_failed_registry)
  also have "\<dots> = (case Map_get (serverConnections m) name of
                None \<Rightarrow> serverConnections m
              | Some c \<Rightarrow> if isConnected c
                          then Map_set name (disconnected c) (serverConnections m)
                          else serverConnections m)"
    by (simp add: torn_down_def disconnectServer_registry isSpecificServerConnected_def
        split: option.splits)
  finally have reg: "serverConnections (snd (connectToServer env name r t m))
           = (case Map_get (serverConnections m) name of
                None \<Rightarrow> serverConnections m
              | Some c \<Rightarrow> if isConnected c
                          then Map_set name (disconnected c) (serverConnections m)
                          else serverConnections m)" .
  have keys: "map fst (serverConnections (snd (connectToServer env name r t m)))
           = map fst (serverConnections m)"
    unfolding reg by (simp add: Map_set_keys split: option.splits)
  have others: "Map_get (serverConnections (snd (connectToServer env name r t m))) n
                  = Map_get (serverConnections m) n" if "n \<noteq> name" for n
    unfolding reg using that by (simp add: Map_get_Map_set_other split: option.splits)
  from reg keys others show ?thesis by blast
qed

theorem failed_connect_registry_witness:
  "isl (fst (connectToServer answers_four ''calc'' 2 10000 configured))
   \<and> serverConnections (snd (connectToServer answers_four ''calc'' 2 10000 configured))
       = [(''calc'', disconnected calc_connection)]
   \<and> isl (fst (connectToServer answers_four ''web'' 2 10000 configured))
   \<and> serverConnections (snd (connectToServer answers_four ''web'' 2 10000 configured))
       = serverConnections configured"
proof -
  have a: "isl (fst (connectToServer answers_four ''calc'' 2 10000 configured))"
    by (simp add: configured_def calc_connection_def answers_four_def connectToServer_def
      connect_loop.simps try_attempt_def disconnectServer_def emit_def Let_def)
  have b: "isl (fst (connectToServer answers_four ''web'' 2 10000 configured))"
    by (simp add: configured_def calc_connection_def answers_four_def connectToServer_def
      connect_loop.simps try_attempt_def disconnectServer_def emit_def Let_def)
  from failed_connect_registry [OF a] failed_connect_registry [OF b] a b
  show ?thesis by (simp add: configured_def calc_connection_def)
qed

section \<open>The registry invariant\<close>

text \<open>
  The empty registry is well formed, and teardown, connecting and tool calls keep a
  registry well formed.
\<close>

lemma registry_ok_cong:
  "serverConnections m' = serverConnections m \<Longrightarrow> registry_ok m' = registry_ok m"
  by (simp add: registry_ok_def)

lemma Map_set_list_all: "list_all P xs \<Longrightarrow> P (k, v) \<Longrightarrow> list_all P (Map_set k v xs)"
  by (induction xs) auto

lemma registry_ok_empty: "registry_ok \<lparr>serverConnections = [], config = cfg, trace = es\<rparr>"
  by (simp add: registry_ok_def)

lemma registry_ok_disconnectServer:
  "registry_ok m \<Longrightarrow> registry_ok (snd (disconnectServer env name m))"
  unfolding registry_ok_def disconnectServer_registry
  by (auto simp: disconnected_def intro: Map_set_list_all split: option.splits)

lemma registry_ok_callTool:
  "registry_ok m \<Longrightarrow> registry_ok (snd (callTool env name arguments m))"
  by (simp add: registry_ok_def callTool_def Let_def split: option.splits sum.splits)

lemma registry_ok_try_attempt:
  assumes "registry_ok m"
  shows "registry_ok (snd (try_attempt env name t k m))"
proof (cases "launch_config_ok (config m) name")
  case False
  with assms show ?thesis by (simp add: try_attempt_bad_config registry_ok_def)
next
  case True
  then obtain cfg e as where c: "config m = Some cfg" "cfg name = Some e"
      "args e = Some as" "command e \<noteq> []"
    by (rule launch_config_okE)
  show ?thesis
    using assms
    by (cases "attempt_meets env name k")
       (auto simp: try_attempt_good_config [OF c] Let_def registry_ok_def
             intro: Map_set_list_all)
qed

lemma registry_ok_connect_loop:
  "registry_ok m \<Longrightarrow> registry_ok (snd (connect_loop env name r t a le m))"
proof (induction "nat (r + 1 - a)" arbitrary: a le m)
  case 0
  then have "\<not> a \<le> r" by simp
  with "0.prems" show ?case by (simp add: connect_loop_done)
next
  case (Suc n)
  then have le: "a \<le> r" by simp
  define m1 where "m1 = (if a > 0 then emit [LogRetry a r, Sleep 1000] m else m)"
  obtain x m2 where tr: "try_attempt env name t (nat a) m1 = (x, m2)"
    by (cases "try_attempt env name t (nat a) m1")
  have "registry_ok m1" using Suc.prems by (simp add: m1_def registry_ok_def)
  then have ok2: "registry_ok m2"
    using registry_ok_try_attempt [of m1 env name t "nat a"] tr by simp
  note step = connect_loop_step [OF le tr [unfolded m1_def]]
  show ?case
  proof (cases x)
    case (Inr found)
    with step ok2 show ?thesis by simp
  next
    case (Inl error)
    let ?m3 = "emit [LogConnectFailed name (a + 1) (r + 1) error] m2"
    have ok3: "registry_ok ?m3" using ok2 by (simp add: registry_ok_def)
    show ?thesis
    proof (cases "a = r")
      case True
      with step Inl ok3 show ?thesis by simp
    next
      case False
      have "n = nat (r + 1 - (a + 1))" using Suc.hyps(2) by simp
      then have "registry_ok (snd (connect_loop env name r t (a + 1) (Some error) ?m3))"
        using ok3 by (rule Suc.hyps(1))
      with step Inl False show ?thesis by simp
    qed
  qed
qed

lemma registry_ok_connectToServer:
  "registry_ok m \<Longrightarrow> registry_ok (snd (connectToServer env name r t m))"
  unfolding connectToServer_unfold
  by (rule registry_ok_connect_loop) (simp add: torn_down_def registry_ok_disconnectServer)

section \<open>The memo check\<close>

lemma quote_last: "quote s \<noteq> [] \<and> last (quote s) = dquote"
  by (simp add: quote_def)

lemma objects_never_repeat: "\<not> isRepeatedCall called name (JObj kvs)"
proof -
  have "fst tool @ '':'' @ JSON_stringify (JStr (snd tool)) \<noteq> toolCallKey name (JObj kvs)"
    for tool :: "string \<times> string"
  proof
    assume eq: "fst tool @ '':'' @ JSON_stringify (JStr (snd tool)) = toolCallKey name (JObj kvs)"
    have "last (fst tool @ '':'' @ JSON_stringify (JStr (snd tool))) = last (quote (snd tool))"
      using quote_last [of "snd tool"] by simp
    then have l: "last (fst tool @ '':'' @ JSON_stringify (JStr (snd tool))) = dquote"
      using quote_last [of "snd tool"] by simp
    have r: "last (toolCallKey name (JObj kvs)) = CHR ''}''"
      by (simp add: toolCallKey_def)
    from l r show False unfolding eq by (simp add: dquote_def)
  qed
  then show ?thesis by (simp add: isRepeatedCall_def list_ex_iff)
qed

lemma fresh_calls_append:
  "fresh_calls called (xs @ ys)
     = (fresh_calls called xs \<and> fresh_calls (called @ map memo_entry xs) ys)"
  by (induction xs arbitrary: called) auto

lemma fresh_calls_objects:
  "list_all (\<lambda>c. is_object (snd c)) calls \<Longrightarrow> fresh_calls called calls"
proof (induction calls arbitrary: called)
  case Nil
  show ?case by simp
next
  case (Cons c calls)
  then obtain kvs where "snd c = JObj kvs" by (cases "snd c") auto
  with Cons show ?case by (simp add: objects_never_repeat)
qed

text \<open>
  Claim C1 does not hold of the code.  The memo keeps the serialised input of every call,
  and the check serialises that string once more before comparing, so the key of a
  remembered call ends in a quote while the key of a requested call with an object input
  ends in a brace: the check never fires on an object.  Here the model requests
  \<open>add\<close> with the same arguments in two rounds; the tool is invoked both times, no
  explanatory block is produced, and the call goes on to a third request.
\<close>

theorem repeated_call_invoked_again:
  "\<not> isRepeatedCall called name (JObj kvs)
   \<and> invoked_of (sendMessage asks_twice answers_four service two_servers question)
     = [(''add'', two_plus_two), (''add'', two_plus_two)]
   \<and> content_of (sendMessage asks_twice answers_four service two_servers question)
     = [toolUse_block ''add'' two_plus_two, toolResult_block ''add'' two_plus_two (JNum 4),
        toolUse_block ''add'' two_plus_two, toolResult_block ''add'' two_plus_two (JNum 4),
        text_block ''4'']
   \<and> length (requests_of (sendMessage asks_twice answers_four service two_servers question)) = 3"
proof -
  have never: "\<not> isRepeatedCall called name (JObj kvs)"
    by (rule objects_never_repeat)
  have run: "invoked_of (sendMessage asks_twice answers_four service two_servers question)
     = [(''add'', two_plus_two), (''add'', two_plus_two)]
   \<and> content_of (sendMessage asks_twice answers_four service two_servers question)
     = [toolUse_block ''add'' two_plus_two, toolResult_block ''add'' two_plus_two (JNum 4),
        toolUse_block ''add'' two_plus_two, toolResult_block ''add'' two_plus_two (JNum 4),
        text_block ''4'']
   \<and> length (requests_of (sendMessage asks_twice answers_four service two_servers question)) = 3"
    by (simp add: run_defs example_defs asks_twice_def invoked_of_def content_of_def
        requests_of_def)
  from never run show ?thesis by (rule conjI)
qed

section \<open>One tool execution\<close>

lemma block_kinds [simp]:
  "is_text (text_block t)"
  "\<not> is_text (toolUse_block name input)"
  "\<not> is_text (toolResult_block name input res)"
  by (simp_all add: is_text_def text_block_def toolUse_block_def toolResult_block_def)

lemma execute_tool_keeps [simp]:
  "shouldContinue (execute_tool env it name input s) = shouldContinue s"
  "calledTools (execute_tool env it name input s) = calledTools s"
  "hasToolCallsThisRound (execute_tool env it name input s) = hasToolCallsThisRound s"
  "hasAnyToolCalls (execute_tool env it name input s) = hasAnyToolCalls s"
  "requests (execute_tool env it name input s) = requests s"
  "rounds (execute_tool env it name input s) = rounds s"
  "modelTextResponse (execute_tool env it name input s) = modelTextResponse s"
  "invoked (execute_tool env it name input s) = invoked s @ [(name, input)]"
  by (simp_all add: execute_tool_def Let_def split: prod.splits sum.splits)

lemma execute_tool_blocks:
  "\<exists>b. \<not> is_text b
       \<and> messageContent (execute_tool env it name input s) = messageContent s @ [b]
       \<and> tempContent (execute_tool env it name input s) = tempContent s @ [b]"
  by (simp add: execute_tool_def Let_def split: prod.splits sum.splits)




section \<open>The returned content\<close>

lemma process_content_rounds [simp]:
  "rounds (process_content env it bs s) = rounds s"
  by (induction env it bs s rule: process_content.induct) simp_all

lemma process_content_requests [simp]:
  "requests (process_content env it bs s) = requests s"
  by (induction env it bs s rule: process_content.induct) simp_all

lemma final_summary_effect:
  assumes "final_summary aenv model messages s = Inr s1"
  shows "rounds s1 = rounds s \<and> hasAnyToolCalls s1 = hasAnyToolCalls s
       \<and> messages \<noteq> []
       \<and> requests s1 = requests s @ [summary_request model messages]
       \<and> messageContent s1
           = messageContent s @ first_text (response_blocks aenv (length (requests s)))"
proof -
  from assms have ne: "messages \<noteq> []" by (auto simp: final_summary_def split: if_splits)
  from assms ne obtain fr where fr: "messages_create aenv (length (requests s)) = Inr fr"
    by (cases "messages_create aenv (length (requests s))") (auto simp: final_summary_def)
  from assms ne fr show ?thesis
    by (auto simp: final_summary_def Let_def first_text_def response_blocks_def
        summary_request_def split: option.splits ContentBlock.splits)
qed

lemma sendMessage_returns:
  assumes "\<not> isl (sendMessage aenv menv svc mgr messages)"
  obtains it s s1 s2 where
    "tool_loop aenv menv (modelName svc) (map to_ApiTool (getTools mgr)) 0
       (initial_state mgr (map to_MessageParam messages)) = Inr (it, s)"
    and "(if it \<ge> maxIterations \<and> shouldContinue s
          then final_summary aenv (modelName svc) messages s else Inr s) = Inr s1"
    and "(if \<not> hasAnyToolCalls s1 \<and> messageContent s1 = []
          then original_reply aenv (modelName svc) (map to_MessageParam messages) s1
          else Inr s1) = Inr s2"
    and "sendMessage aenv menv svc mgr messages
           = Inr (\<lparr>msg_id = show_nat (clock aenv), msg_role = role_assistant,
                   msg_content = messageContent s2, createdAt = clock aenv\<rparr>, s2)"
  using assms
  by (auto simp: sendMessage_def Let_def split: if_splits sum.splits prod.splits)

lemma callTool_reads_registry:
  "serverConnections m = serverConnections m'
     \<Longrightarrow> fst (callTool env name input m) = fst (callTool env name input m')"
  by (simp add: callTool_def Let_def split: option.splits sum.splits)

lemma callTool_keeps_registry:
  "serverConnections (snd (callTool env name input m)) = serverConnections m"
  by (simp add: callTool_def Let_def split: option.splits sum.splits)

lemma execute_tool_outcome:
  assumes "serverConnections (manager s) = serverConnections mgr"
  shows "messageContent (execute_tool env it name input s)
           = messageContent s @ [toolResult_block name input (tool_outcome env mgr name input)]
       \<and> tempContent (execute_tool env it name input s)
           = tempContent s @ [toolResult_block name input (tool_outcome env mgr name input)]
       \<and> serverConnections (manager (execute_tool env it name input s)) = serverConnections mgr"
proof -
  obtain x m' where c: "callTool env name input (manager s) = (x, m')"
    by (cases "callTool env name input (manager s)")
  have out: "fst (callTool env name input mgr) = x"
    using callTool_reads_registry [OF assms, of env name input] c by simp
  have reg: "serverConnections m' = serverConnections mgr"
    using callTool_keeps_registry [of env name input "manager s"] c assms by simp
  show ?thesis
  proof (cases x)
    case (Inl e)
    with c out reg show ?thesis by (simp add: execute_tool_def Let_def tool_outcome_def)
  next
    case (Inr res)
    with c out reg show ?thesis by (simp add: execute_tool_def Let_def tool_outcome_def)
  qed
qed

lemma process_content_produced:
  assumes "serverConnections (manager s) = serverConnections mgr"
  shows "tempContent (process_content env it bs s)
           = tempContent s @ fst (produced env mgr (calledTools s) bs)
       \<and> messageContent (process_content env it bs s)
           = messageContent s @ tools_of (fst (produced env mgr (calledTools s) bs))
       \<and> calledTools (process_content env it bs s) = fst (snd (produced env mgr (calledTools s) bs))
       \<and> shouldContinue (process_content env it bs s)
           = (shouldContinue s \<and> \<not> snd (snd (produced env mgr (calledTools s) bs)))
       \<and> hasToolCallsThisRound (process_content env it bs s)
           = (hasToolCallsThisRound s \<or> tools_of (fst (produced env mgr (calledTools s) bs)) \<noteq> [])
       \<and> hasAnyToolCalls (process_content env it bs s)
           = (hasAnyToolCalls s \<or> tools_of (fst (produced env mgr (calledTools s) bs)) \<noteq> [])
       \<and> serverConnections (manager (process_content env it bs s)) = serverConnections mgr"
  using assms
proof (induction env it bs s rule: process_content.induct)
  case (1 env it s)
  then show ?case by (simp add: tools_of_def)
next
  case (2 env it t rest s)
  let ?s1 = "s\<lparr>tempContent := tempContent s @ [text_block t], modelTextResponse := t\<rparr>"
  have "serverConnections (manager ?s1) = serverConnections mgr" using "2.prems" by simp
  from "2.IH" [OF this] show ?case by (simp add: tools_of_def Let_def)
next
  case (3 env it name input rest s)
  show ?case
  proof (cases "isRepeatedCall (calledTools s) name input")
    case True
    with "3.prems" show ?thesis by (simp add: tools_of_def)
  next
    case False
    let ?s1 = "s\<lparr>calledTools := calledTools s @ [(name, JSON_stringify input)],
                hasToolCallsThisRound := True,
                hasAnyToolCalls := True,
                tempContent := tempContent s @ [toolUse_block name input],
                messageContent := messageContent s @ [toolUse_block name input]\<rparr>"
    let ?s2 = "execute_tool env it name input ?s1"
    have "serverConnections (manager ?s1) = serverConnections mgr" using "3.prems" by simp
    from execute_tool_outcome [OF this, of env it name input]
    have e: "messageContent ?s2 = messageContent s @ tool_blocks env mgr (name, input)"
      "tempContent ?s2 = tempContent s @ tool_blocks env mgr (name, input)"
      "serverConnections (manager ?s2) = serverConnections mgr"
      by (simp_all add: tool_blocks_def)
    from "3.IH" [OF False e(3)] False e(1,2) show ?thesis
      by (simp add: tools_of_def Let_def tool_blocks_def)
  qed
next
  case (4 env it rest s)
  then show ?case by simp
qed

lemma tools_of_simps [simp]:
  "tools_of [] = []"
  "tools_of (xs @ ys) = tools_of xs @ tools_of ys"
  "tools_of (tools_of xs) = tools_of xs"
  "tools_of (texts_of xs) = []"
  by (simp_all add: tools_of_def texts_of_def)

lemma expected_loop_at_cap:
  "\<not> k < maxIterations \<Longrightarrow> expected_loop aenv menv mgr k called = ([], True)"
  by (subst expected_loop.simps) simp

lemma expected_loop_round:
  assumes "k < maxIterations" and "messages_create aenv k = Inr bs"
  shows "expected_loop aenv menv mgr k called =
     (let p = produced menv mgr called bs in
      if tools_of (fst p) = [] then (texts_of (fst p), False)
      else if snd (snd p) then (tools_of (fst p), False)
      else (tools_of (fst p) @ fst (expected_loop aenv menv mgr (k + 1) (fst (snd p))),
            snd (expected_loop aenv menv mgr (k + 1) (fst (snd p)))))"
  using assms by (subst expected_loop.simps) simp

lemma expected_capped_has_tools:
  assumes "snd (expected_loop aenv menv mgr k called)" and "k < maxIterations"
  shows "tools_of (fst (expected_loop aenv menv mgr k called)) \<noteq> []"
proof (cases "messages_create aenv k")
  case (Inl e)
  with assms show ?thesis by (subst (asm) expected_loop.simps) simp
next
  case (Inr bs)
  from assms(1) show ?thesis
    unfolding expected_loop_round [OF assms(2) Inr]
    by (auto simp: Let_def split: if_splits)
qed

lemma tool_loop_stops:
  "\<not> shouldContinue s \<Longrightarrow> tool_loop aenv menv model apiTools k s = Inr (k, s)"
  by (subst tool_loop.simps) simp

lemma tool_loop_expected:
  assumes "tool_loop aenv menv model apiTools k s = Inr (k', s')"
    and "shouldContinue s" and "length (requests s) = k" and "k \<le> maxIterations"
    and "serverConnections (manager s) = serverConnections mgr"
  shows "messageContent s' = messageContent s @ fst (expected_loop aenv menv mgr k (calledTools s))
       \<and> snd (expected_loop aenv menv mgr k (calledTools s))
           = (maxIterations \<le> k' \<and> shouldContinue s')
       \<and> hasAnyToolCalls s'
           = (hasAnyToolCalls s \<or> tools_of (fst (expected_loop aenv menv mgr k (calledTools s))) \<noteq> [])
       \<and> (snd (expected_loop aenv menv mgr k (calledTools s))
            \<longrightarrow> length (requests s') = maxIterations)
       \<and> (\<not> snd (expected_loop aenv menv mgr k (calledTools s))
            \<and> fst (expected_loop aenv menv mgr k (calledTools s)) = []
            \<longrightarrow> length (requests s') = k + 1)"
  using assms
proof (induction "maxIterations - k" arbitrary: k s)
  case 0
  then have k: "k = maxIterations" by simp
  then have "tool_loop aenv menv model apiTools k s = Inr (k, s)"
    by (subst tool_loop.simps) simp
  with "0.prems"(1) have "k' = k" "s' = s" by simp_all
  with k "0.prems" show ?case by (simp add: expected_loop_at_cap)
next
  case (Suc n)
  then have lt: "k < maxIterations" by simp
  obtain bs where resp: "messages_create aenv k = Inr bs"
    using Suc.prems(1,2,3) lt
    by (cases "messages_create aenv k") (simp_all add: tool_loop.simps)
  let ?s0 = "s\<lparr>requests := requests s @ [round_request model apiTools s],
                hasToolCallsThisRound := False,
                tempContent := [],
                modelTextResponse := []\<rparr>"
  let ?s1 = "process_content menv (k + 1) bs ?s0"
  let ?s2 = "finish_round ?s1"
  let ?p = "produced menv mgr (calledTools s) bs"
  have step: "tool_loop aenv menv model apiTools (k + 1) ?s2 = Inr (k', s')"
    using Suc.prems(1,2,3) lt resp by (subst (asm) tool_loop.simps) simp
  have "serverConnections (manager ?s0) = serverConnections mgr" using Suc.prems(5) by simp
  from process_content_produced [OF this, of menv "k + 1" bs]
  have p: "tempContent ?s1 = fst ?p"
    "messageContent ?s1 = messageContent s @ tools_of (fst ?p)"
    "calledTools ?s1 = fst (snd ?p)"
    "shouldContinue ?s1 = (\<not> snd (snd ?p))"
    "hasToolCallsThisRound ?s1 = (tools_of (fst ?p) \<noteq> [])"
    "hasAnyToolCalls ?s1 = (hasAnyToolCalls s \<or> tools_of (fst ?p) \<noteq> [])"
    "serverConnections (manager ?s1) = serverConnections mgr"
    using Suc.prems(2) by simp_all
  have req1: "length (requests ?s1) = k + 1" using Suc.prems(3) by simp
  note exp = expected_loop_round [OF lt resp, of menv mgr "calledTools s"]
  show ?case
  proof (cases "tools_of (fst ?p) = []")
    case True
    then have f: "messageContent ?s2 = messageContent s @ texts_of (fst ?p)"
      "\<not> shouldContinue ?s2" "hasAnyToolCalls ?s2 = hasAnyToolCalls s"
      "length (requests ?s2) = k + 1"
      using p req1 by (simp_all add: finish_round_def Let_def texts_of_def)
    have stop: "tool_loop aenv menv model apiTools (k + 1) ?s2 = Inr (k + 1, ?s2)"
      using f(2) by (rule tool_loop_stops)
    from step [unfolded stop] have "k' = k + 1" "s' = ?s2" by auto
    with f True exp show ?thesis by (simp add: Let_def)
  next
    case False
    then have f: "messageContent ?s2 = messageContent s @ tools_of (fst ?p)"
      "shouldContinue ?s2 = (\<not> snd (snd ?p))" "hasAnyToolCalls ?s2"
      "length (requests ?s2) = k + 1" "calledTools ?s2 = fst (snd ?p)"
      "serverConnections (manager ?s2) = serverConnections mgr"
      using p req1 by (simp_all add: finish_round_def Let_def)
    show ?thesis
    proof (cases "snd (snd ?p)")
      case True
      with f(2) have "\<not> shouldContinue ?s2" by simp
      then have stop: "tool_loop aenv menv model apiTools (k + 1) ?s2 = Inr (k + 1, ?s2)"
        by (rule tool_loop_stops)
      from step [unfolded stop] have "k' = k + 1" "s' = ?s2" by auto
      with f False True exp show ?thesis by (simp add: Let_def)
    next
      case stopped: False
      have "messageContent s' = messageContent ?s2 @ fst (expected_loop aenv menv mgr (k + 1) (calledTools ?s2))
       \<and> snd (expected_loop aenv menv mgr (k + 1) (calledTools ?s2))
           = (maxIterations \<le> k' \<and> shouldContinue s')
       \<and> hasAnyToolCalls s'
           = (hasAnyToolCalls ?s2 \<or> tools_of (fst (expected_loop aenv menv mgr (k + 1) (calledTools ?s2))) \<noteq> [])
       \<and> (snd (expected_loop aenv menv mgr (k + 1) (calledTools ?s2))
            \<longrightarrow> length (requests s') = maxIterations)
       \<and> (\<not> snd (expected_loop aenv menv mgr (k + 1) (calledTools ?s2))
            \<and> fst (expected_loop aenv menv mgr (k + 1) (calledTools ?s2)) = []
            \<longrightarrow> length (requests s') = k + 1 + 1)"
      proof (rule Suc.hyps(1) [OF _ step])
        show "n = maxIterations - (k + 1)" using Suc.hyps(2) by simp
        show "shouldContinue ?s2" using f(2) stopped by simp
        show "length (requests ?s2) = k + 1" by (rule f(4))
        show "k + 1 \<le> maxIterations" using lt by simp
        show "serverConnections (manager ?s2) = serverConnections mgr" by (rule f(6))
      qed
      with f False stopped exp show ?thesis by (simp add: Let_def)
    qed
  qed
qed

lemma original_reply_content:
  assumes "original_reply aenv model anthropicMessages s = Inr s2"
  shows "messageContent s2 = messageContent s @ all_text (response_blocks aenv (length (requests s)))"
proof -
  from assms obtain r where r: "messages_create aenv (length (requests s)) = Inr r"
    by (cases "messages_create aenv (length (requests s))") (auto simp: original_reply_def)
  with assms show ?thesis by (auto simp: original_reply_def all_text_def response_blocks_def)
qed

lemma sendMessage_content_expected:
  assumes "\<not> isl (sendMessage aenv menv svc mgr messages)"
  shows "role_of (sendMessage aenv menv svc mgr messages) = Some role_assistant
       \<and> content_of (sendMessage aenv menv svc mgr messages) = expected_content aenv menv mgr"
proof -
  let ?s0 = "initial_state mgr (map to_MessageParam messages)"
  from assms obtain it s s1 s2 where
    loop: "tool_loop aenv menv (modelName svc) (map to_ApiTool (getTools mgr)) 0 ?s0 = Inr (it, s)"
    and fin: "(if it \<ge> maxIterations \<and> shouldContinue s
          then final_summary aenv (modelName svc) messages s else Inr s) = Inr s1"
    and orig: "(if \<not> hasAnyToolCalls s1 \<and> messageContent s1 = []
          then original_reply aenv (modelName svc) (map to_MessageParam messages) s1
          else Inr s1) = Inr s2"
    and res: "sendMessage aenv menv svc mgr messages
           = Inr (\<lparr>msg_id = show_nat (clock aenv), msg_role = role_assistant,
                   msg_content = messageContent s2, createdAt = clock aenv\<rparr>, s2)"
    by (rule sendMessage_returns)
  let ?body = "fst (expected_loop aenv menv mgr 0 [])"
  let ?capped = "snd (expected_loop aenv menv mgr 0 [])"
  have "messageContent s = messageContent ?s0 @ fst (expected_loop aenv menv mgr 0 (calledTools ?s0))
       \<and> snd (expected_loop aenv menv mgr 0 (calledTools ?s0))
           = (maxIterations \<le> it \<and> shouldContinue s)
       \<and> hasAnyToolCalls s
           = (hasAnyToolCalls ?s0 \<or> tools_of (fst (expected_loop aenv menv mgr 0 (calledTools ?s0))) \<noteq> [])
       \<and> (snd (expected_loop aenv menv mgr 0 (calledTools ?s0))
            \<longrightarrow> length (requests s) = maxIterations)
       \<and> (\<not> snd (expected_loop aenv menv mgr 0 (calledTools ?s0))
            \<and> fst (expected_loop aenv menv mgr 0 (calledTools ?s0)) = []
            \<longrightarrow> length (requests s) = 0 + 1)"
    by (rule tool_loop_expected [OF loop]) (simp_all add: initial_state_def)
  then have l: "messageContent s = ?body" "?capped = (maxIterations \<le> it \<and> shouldContinue s)"
    "hasAnyToolCalls s = (tools_of ?body \<noteq> [])"
    "?capped \<longrightarrow> length (requests s) = maxIterations"
    "\<not> ?capped \<and> ?body = [] \<longrightarrow> length (requests s) = 1"
    by (simp_all add: initial_state_def)
  have "messageContent s2 = expected_content aenv menv mgr"
  proof (cases ?capped)
    case True
    with l(2) fin have "final_summary aenv (modelName svc) messages s = Inr s1" by simp
    from final_summary_effect [OF this] l(1,3,4) True
    have s1: "messageContent s1 = ?body @ first_text (response_blocks aenv maxIterations)"
      "hasAnyToolCalls s1 = (tools_of ?body \<noteq> [])"
      by simp_all
    have "0 < maxIterations" by (simp add: maxIterations_def)
    with True have "tools_of ?body \<noteq> []" by (intro expected_capped_has_tools) simp_all
    with s1 orig have "s2 = s1" by simp
    with s1 True show ?thesis by (simp add: expected_content_def Let_def)
  next
    case False
    with l(2) fin have s1: "s1 = s" by auto
    show ?thesis
    proof (cases "?body = []")
      case True
      with l(1,3) s1 orig
      have "original_reply aenv (modelName svc) (map to_MessageParam messages) s1 = Inr s2"
        by simp
      from original_reply_content [OF this] l(1,5) s1 True False show ?thesis
        by (simp add: expected_content_def Let_def)
    next
      case nonempty: False
      with l(1) s1 orig have "s2 = s" by simp
      with l(1) False nonempty show ?thesis by (simp add: expected_content_def Let_def)
    qed
  qed
  then show ?thesis unfolding res by (simp add: role_of_def content_of_def)
qed

text \<open>
  Claim C2, as stated, fails: the sentence the model writes in the round that also calls the
  tool is in that round's blocks and not in the returned content.
\<close>

theorem output_counterexample:
  "rounds_of (sendMessage thinks_aloud answers_four service two_servers question)
     = [(True, [text_block ''Let me add.'', toolUse_block ''add'' two_plus_two,
                toolResult_block ''add'' two_plus_two (JNum 4)]),
        (False, [text_block ''4''])]
   \<and> content_of (sendMessage thinks_aloud answers_four service two_servers question)
     = [toolUse_block ''add'' two_plus_two, toolResult_block ''add'' two_plus_two (JNum 4),
        text_block ''4'']"
  by (simp add: run_defs example_defs thinks_aloud_def rounds_of_def content_of_def)

text \<open>
  Claim C2, amended.  A call that returns gives one assistant message.  Its content is
  \<open>expected_content\<close>: round by round in order, the toolUse and toolResult blocks of every
  round that called a tool and the text blocks of the round that called none, which ends
  the loop; after these only the first text block of the summarising response when the cap
  was reached, or the text blocks of the fallback response when the loop left nothing.  The
  text blocks of a round that called a tool are not in the content.
\<close>

theorem sendMessage_output:
  assumes "\<not> isl (sendMessage aenv menv svc mgr messages)"
  shows "role_of (sendMessage aenv menv svc mgr messages) = Some role_assistant
       \<and> content_of (sendMessage aenv menv svc mgr messages) = expected_content aenv menv mgr"
  using assms by (rule sendMessage_content_expected)

theorem sendMessage_output_witness:
  "\<not> isl (sendMessage thinks_aloud answers_four service two_servers question)
   \<and> expected_content thinks_aloud answers_four two_servers
       = [toolUse_block ''add'' two_plus_two, toolResult_block ''add'' two_plus_two (JNum 4),
          text_block ''4'']
   \<and> content_of (sendMessage thinks_aloud answers_four service two_servers question)
       = [toolUse_block ''add'' two_plus_two, toolResult_block ''add'' two_plus_two (JNum 4),
          text_block ''4'']"
proof -
  have ok: "\<not> isl (sendMessage thinks_aloud answers_four service two_servers question)"
    by (simp add: run_defs example_defs thinks_aloud_def)
  have e: "expected_content thinks_aloud answers_four two_servers
       = [toolUse_block ''add'' two_plus_two, toolResult_block ''add'' two_plus_two (JNum 4),
          text_block ''4'']"
    by (simp add: expected_defs example_defs thinks_aloud_def)
  from sendMessage_output [OF ok] ok e show ?thesis by simp
qed

section \<open>The iteration cap\<close>

lemma process_content_fresh:
  assumes "fresh_calls (calledTools s) (tool_uses bs)"
  shows "shouldContinue (process_content env it bs s) = shouldContinue s
       \<and> calledTools (process_content env it bs s) = calledTools s @ map memo_entry (tool_uses bs)
       \<and> hasToolCallsThisRound (process_content env it bs s)
           = (hasToolCallsThisRound s \<or> tool_uses bs \<noteq> [])
       \<and> hasAnyToolCalls (process_content env it bs s) = (hasAnyToolCalls s \<or> tool_uses bs \<noteq> [])"
  using assms
proof (induction env it bs s rule: process_content.induct)
  case (1 env it s)
  then show ?case by simp
next
  case (2 env it t rest s)
  then show ?case by simp
next
  case (3 env it name input rest s)
  from "3.prems" have fresh: "\<not> isRepeatedCall (calledTools s) name input"
    and rest: "fresh_calls (calledTools s @ [(name, JSON_stringify input)]) (tool_uses rest)"
    by (simp_all add: memo_entry_def)
  let ?s1 = "s\<lparr>calledTools := calledTools s @ [(name, JSON_stringify input)],
                hasToolCallsThisRound := True,
                hasAnyToolCalls := True,
                tempContent := tempContent s @ [toolUse_block name input],
                messageContent := messageContent s @ [toolUse_block name input]\<rparr>"
  have "fresh_calls (calledTools (execute_tool env it name input ?s1)) (tool_uses rest)"
    using rest by simp
  from "3.IH" [OF fresh this] fresh show ?case by (simp add: memo_entry_def)
next
  case (4 env it rest s)
  then show ?case by simp
qed

lemma finish_round_after_tools:
  assumes "hasToolCallsThisRound s"
  shows "finish_round s = s\<lparr>rounds := rounds s @ [(True, tempContent s)]\<rparr>"
  using assms by (simp add: finish_round_def)

lemma finish_round_invoked [simp]: "invoked (finish_round s) = invoked s"
  by (simp add: finish_round_def Let_def)

lemma process_content_invoked_fresh:
  assumes "fresh_calls (calledTools s) (tool_uses bs)"
  shows "invoked (process_content env it bs s) = invoked s @ tool_uses bs"
  using assms
proof (induction env it bs s rule: process_content.induct)
  case (3 env it name input rest s)
  from "3.prems" have fresh: "\<not> isRepeatedCall (calledTools s) name input"
    and rest: "fresh_calls (calledTools s @ [(name, JSON_stringify input)]) (tool_uses rest)"
    by (simp_all add: memo_entry_def)
  let ?s1 = "s\<lparr>calledTools := calledTools s @ [(name, JSON_stringify input)],
                hasToolCallsThisRound := True,
                hasAnyToolCalls := True,
                tempContent := tempContent s @ [toolUse_block name input],
                messageContent := messageContent s @ [toolUse_block name input]\<rparr>"
  have "fresh_calls (calledTools (execute_tool env it name input ?s1)) (tool_uses rest)"
    using rest by simp
  from "3.IH" [OF fresh this] fresh show ?case by simp
qed simp_all

lemma calls_upto_step:
  "i < j \<Longrightarrow> calls_upto aenv i j = tool_uses (response_blocks aenv i) @ calls_upto aenv (i + 1) j"
  by (simp add: calls_upto_def upt_conv_Cons)

lemma calls_upto_snoc:
  "calls_upto aenv 0 (Suc i) = calls_upto aenv 0 i @ tool_uses (response_blocks aenv i)"
  by (simp add: calls_upto_def)

lemma tool_loop_runs_to_cap:
  assumes "it \<le> maxIterations" and "shouldContinue s" and "length (requests s) = it"
    and "length (rounds s) = it" and "invoked s = calls_upto aenv 0 it"
    and "0 < it \<longrightarrow> hasAnyToolCalls s"
    and "\<forall>k. it \<le> k \<and> k < maxIterations
           \<longrightarrow> \<not> isl (messages_create aenv k) \<and> tool_uses (response_blocks aenv k) \<noteq> []"
    and "fresh_calls (calledTools s) (calls_upto aenv it maxIterations)"
  shows "\<exists>s'. tool_loop aenv menv model apiTools it s = Inr (maxIterations, s')
            \<and> shouldContinue s' \<and> length (requests s') = maxIterations
            \<and> length (rounds s') = maxIterations
            \<and> invoked s' = calls_upto aenv 0 maxIterations
            \<and> hasAnyToolCalls s'"
  using assms
proof (induction "maxIterations - it" arbitrary: it s)
  case 0
  then have "it = maxIterations" by simp
  moreover have "0 < maxIterations" by (simp add: maxIterations_def)
  ultimately show ?case using "0.prems" by (simp add: tool_loop.simps)
next
  case (Suc n)
  then have lt: "it < maxIterations" by simp
  from Suc.prems(7) lt obtain bs where resp: "messages_create aenv it = Inr bs"
    and uses: "tool_uses bs \<noteq> []"
    by (cases "messages_create aenv it") (auto simp: response_blocks_def)
  have blocks: "response_blocks aenv it = bs" using resp by (simp add: response_blocks_def)
  from Suc.prems(8) blocks calls_upto_step [OF lt, of aenv]
  have fresh_now: "fresh_calls (calledTools s) (tool_uses bs)"
    and fresh_later: "fresh_calls (calledTools s @ map memo_entry (tool_uses bs))
           (calls_upto aenv (it + 1) maxIterations)"
    by (simp_all add: fresh_calls_append)
  let ?s0 = "s\<lparr>requests := requests s @ [round_request model apiTools s],
                hasToolCallsThisRound := False,
                tempContent := [],
                modelTextResponse := []\<rparr>"
  let ?s1 = "process_content menv (it + 1) bs ?s0"
  have fr0: "fresh_calls (calledTools ?s0) (tool_uses bs)" using fresh_now by simp
  from process_content_fresh [OF fr0, of menv "it + 1"] uses
  have p: "shouldContinue ?s1 = shouldContinue s"
    "calledTools ?s1 = calledTools s @ map memo_entry (tool_uses bs)"
    "hasToolCallsThisRound ?s1" "hasAnyToolCalls ?s1"
    by simp_all
  have inv1: "invoked ?s1 = calls_upto aenv 0 (it + 1)"
    using process_content_invoked_fresh [OF fr0, of menv "it + 1"] Suc.prems(5) blocks
    by (simp add: calls_upto_snoc)
  let ?s2 = "finish_round ?s1"
  have f: "?s2 = ?s1\<lparr>rounds := rounds ?s1 @ [(True, tempContent ?s1)]\<rparr>"
    using p(3) by (rule finish_round_after_tools)
  have step: "tool_loop aenv menv model apiTools it s
                = tool_loop aenv menv model apiTools (it + 1) ?s2"
    using Suc.prems(2,3) lt resp by (subst tool_loop.simps) simp
  have "\<exists>s'. tool_loop aenv menv model apiTools (it + 1) ?s2 = Inr (maxIterations, s')
            \<and> shouldContinue s' \<and> length (requests s') = maxIterations
            \<and> length (rounds s') = maxIterations
            \<and> invoked s' = calls_upto aenv 0 maxIterations
            \<and> hasAnyToolCalls s'"
  proof (rule Suc.hyps(1))
    show "n = maxIterations - (it + 1)" using Suc.hyps(2) by simp
    show "it + 1 \<le> maxIterations" using lt by simp
    show "shouldContinue ?s2" using f p(1) Suc.prems(2) by simp
    show "length (requests ?s2) = it + 1" using f Suc.prems(3) by simp
    show "length (rounds ?s2) = it + 1" using f Suc.prems(4) by simp
    show "invoked ?s2 = calls_upto aenv 0 (it + 1)" using inv1 by simp
    show "0 < it + 1 \<longrightarrow> hasAnyToolCalls ?s2" using f p(4) by simp
    show "\<forall>k. it + 1 \<le> k \<and> k < maxIterations
           \<longrightarrow> \<not> isl (messages_create aenv k) \<and> tool_uses (response_blocks aenv k) \<noteq> []"
      using Suc.prems(7) by simp
    show "fresh_calls (calledTools ?s2) (calls_upto aenv (it + 1) maxIterations)"
      using f p(2) fresh_later by simp
  qed
  with step show ?case by simp
qed

lemma tool_blocks_are_tools [simp]: "tools_of (tool_blocks env mgr c) = tool_blocks env mgr c"
  by (simp add: tools_of_def tool_blocks_def)

lemma tool_blocks_nonempty [simp]: "tool_blocks env mgr c \<noteq> []"
  by (simp add: tool_blocks_def)

lemma produced_fresh:
  assumes "fresh_calls called (tool_uses bs)"
  shows "tools_of (fst (produced env mgr called bs)) = concat (map (tool_blocks env mgr) (tool_uses bs))
       \<and> fst (snd (produced env mgr called bs)) = called @ map memo_entry (tool_uses bs)
       \<and> \<not> snd (snd (produced env mgr called bs))"
  using assms
proof (induction env mgr called bs rule: produced.induct)
  case (1 env mgr called)
  show ?case by simp
next
  case (2 env mgr called t rest)
  then show ?case by (simp add: Let_def tools_of_def)
next
  case (3 env mgr called name input rest)
  from "3.prems" have fresh: "\<not> isRepeatedCall called name input"
    and rest: "fresh_calls (called @ [(name, JSON_stringify input)]) (tool_uses rest)"
    by (simp_all add: memo_entry_def)
  from "3.IH" [OF fresh rest] fresh show ?case by (simp add: Let_def memo_entry_def)
next
  case (4 env mgr called rest)
  then show ?case by simp
qed

lemma expected_loop_fresh:
  assumes "k \<le> maxIterations"
    and "\<forall>j. k \<le> j \<and> j < maxIterations
           \<longrightarrow> \<not> isl (messages_create aenv j) \<and> tool_uses (response_blocks aenv j) \<noteq> []"
    and "fresh_calls called (calls_upto aenv k maxIterations)"
  shows "expected_loop aenv menv mgr k called
           = (concat (map (tool_blocks menv mgr) (calls_upto aenv k maxIterations)), True)"
  using assms
proof (induction "maxIterations - k" arbitrary: k called)
  case 0
  then have "k = maxIterations" by simp
  then show ?case by (simp add: expected_loop_at_cap calls_upto_def)
next
  case (Suc n)
  then have lt: "k < maxIterations" by simp
  from Suc.prems(2) lt obtain bs where resp: "messages_create aenv k = Inr bs"
    and uses: "tool_uses bs \<noteq> []"
    by (cases "messages_create aenv k") (auto simp: response_blocks_def)
  have blocks: "response_blocks aenv k = bs" using resp by (simp add: response_blocks_def)
  from Suc.prems(3) blocks calls_upto_step [OF lt, of aenv]
  have fresh_now: "fresh_calls called (tool_uses bs)"
    and fresh_later: "fresh_calls (called @ map memo_entry (tool_uses bs))
           (calls_upto aenv (k + 1) maxIterations)"
    by (simp_all add: fresh_calls_append)
  note p = produced_fresh [OF fresh_now, of menv mgr]
  have ne: "tools_of (fst (produced menv mgr called bs)) \<noteq> []"
    using p uses by (cases "tool_uses bs") simp_all
  have "expected_loop aenv menv mgr (k + 1) (called @ map memo_entry (tool_uses bs))
          = (concat (map (tool_blocks menv mgr) (calls_upto aenv (k + 1) maxIterations)), True)"
  proof (rule Suc.hyps(1))
    show "n = maxIterations - (k + 1)" using Suc.hyps(2) by simp
    show "k + 1 \<le> maxIterations" using lt by simp
    show "\<forall>j. k + 1 \<le> j \<and> j < maxIterations
           \<longrightarrow> \<not> isl (messages_create aenv j) \<and> tool_uses (response_blocks aenv j) \<noteq> []"
      using Suc.prems(2) by simp
    show "fresh_calls (called @ map memo_entry (tool_uses bs)) (calls_upto aenv (k + 1) maxIterations)"
      by (rule fresh_later)
  qed
  with p ne blocks show ?case
    by (simp add: expected_loop_round [OF lt resp] Let_def calls_upto_step [OF lt])
qed

lemma fresh_calls_upto_objects:
  assumes "\<forall>k < maxIterations. list_all (\<lambda>c. is_object (snd c)) (tool_uses (response_blocks aenv k))"
  shows "fresh_calls called (calls_upto aenv i maxIterations)"
proof (rule fresh_calls_objects)
  show "list_all (\<lambda>c. is_object (snd c)) (calls_upto aenv i maxIterations)"
    using assms by (auto simp: calls_upto_def list_all_iff)
qed

text \<open>
  Claim C5.  Given a non-empty history and a model that answers every request, when each of
  the first \<open>maxIterations\<close> (20) responses requests a tool call (the inputs being JSON
  objects, as the model API sends them), the call makes exactly \<open>maxIterations\<close> rounds and
  then exactly one more request: without tools, holding a single user message built from the
  text of the last message given.  Every requested call is invoked, in order; the returned
  content is the toolUse and toolResult blocks of these calls followed by the first text
  block of that last response, if it has one.
\<close>

theorem iteration_cap:
  assumes "anthropic svc" and "messages \<noteq> []"
    and "\<forall>k < maxIterations. \<not> isl (messages_create aenv k)
                             \<and> tool_uses (response_blocks aenv k) \<noteq> []
                             \<and> list_all (\<lambda>c. is_object (snd c)) (tool_uses (response_blocks aenv k))"
    and "\<not> isl (messages_create aenv maxIterations)"
  shows "\<not> isl (sendMessage aenv menv svc mgr messages)
       \<and> length (rounds_of (sendMessage aenv menv svc mgr messages)) = maxIterations
       \<and> length (requests_of (sendMessage aenv menv svc mgr messages)) = maxIterations + 1
       \<and> requests_of (sendMessage aenv menv svc mgr messages) ! maxIterations
           = summary_request (modelName svc) messages
       \<and> invoked_of (sendMessage aenv menv svc mgr messages) = calls_upto aenv 0 maxIterations
       \<and> content_of (sendMessage aenv menv svc mgr messages)
           = concat (map (tool_blocks menv mgr) (calls_upto aenv 0 maxIterations))
             @ first_text (response_blocks aenv maxIterations)"
proof -
  let ?s0 = "initial_state mgr (map to_MessageParam messages)"
  have objs: "\<forall>k < maxIterations. list_all (\<lambda>c. is_object (snd c)) (tool_uses (response_blocks aenv k))"
    using assms(3) by simp
  have answers: "\<forall>k. 0 \<le> k \<and> k < maxIterations
           \<longrightarrow> \<not> isl (messages_create aenv k) \<and> tool_uses (response_blocks aenv k) \<noteq> []"
    using assms(3) by simp
  have fresh: "fresh_calls [] (calls_upto aenv 0 maxIterations)"
    using objs by (rule fresh_calls_upto_objects)
  have "\<exists>s'. tool_loop aenv menv (modelName svc) (map to_ApiTool (getTools mgr)) 0 ?s0
                = Inr (maxIterations, s')
            \<and> shouldContinue s' \<and> length (requests s') = maxIterations
            \<and> length (rounds s') = maxIterations
            \<and> invoked s' = calls_upto aenv 0 maxIterations
            \<and> hasAnyToolCalls s'"
    using answers fresh
    by (intro tool_loop_runs_to_cap) (simp_all add: initial_state_def calls_upto_def)
  then obtain s where loop: "tool_loop aenv menv (modelName svc) (map to_ApiTool (getTools mgr)) 0 ?s0
                = Inr (maxIterations, s)"
    and s: "shouldContinue s" "length (requests s) = maxIterations"
      "length (rounds s) = maxIterations" "invoked s = calls_upto aenv 0 maxIterations"
      "hasAnyToolCalls s"
    by blast
  obtain fr where fr: "messages_create aenv maxIterations = Inr fr"
    using assms(4) by (cases "messages_create aenv maxIterations") auto
  define s1 where "s1 = s\<lparr>requests := requests s @ [summary_request (modelName svc) messages],
                          messageContent := messageContent s @ first_text fr\<rparr>"
  have fin: "final_summary aenv (modelName svc) messages s = Inr s1"
    using assms(2) fr s(2)
    by (auto simp: final_summary_def Let_def s1_def summary_request_def first_text_def
        split: option.splits ContentBlock.splits)
  have res: "sendMessage aenv menv svc mgr messages
           = Inr (\<lparr>msg_id = show_nat (clock aenv), msg_role = role_assistant,
                   msg_content = messageContent s1, createdAt = clock aenv\<rparr>, s1)"
    using assms(1) loop s(1,5) fin by (simp add: sendMessage_def Let_def s1_def)
  then have ok: "\<not> isl (sendMessage aenv menv svc mgr messages)" by simp
  have "expected_loop aenv menv mgr 0 []
          = (concat (map (tool_blocks menv mgr) (calls_upto aenv 0 maxIterations)), True)"
    using answers fresh by (intro expected_loop_fresh) simp_all
  then have "expected_content aenv menv mgr
          = concat (map (tool_blocks menv mgr) (calls_upto aenv 0 maxIterations))
            @ first_text (response_blocks aenv maxIterations)"
    by (simp add: expected_content_def)
  with sendMessage_content_expected [OF ok]
  have content: "content_of (sendMessage aenv menv svc mgr messages)
           = concat (map (tool_blocks menv mgr) (calls_upto aenv 0 maxIterations))
             @ first_text (response_blocks aenv maxIterations)"
    by simp
  from s content ok show ?thesis
    unfolding res
    by (simp add: rounds_of_def requests_of_def invoked_of_def content_of_def s1_def nth_append)
qed

theorem iteration_cap_witness:
  "\<not> isl (sendMessage asks_forever answers_four service two_servers question)
   \<and> length (requests_of (sendMessage asks_forever answers_four service two_servers question)) = 21
   \<and> requests_of (sendMessage asks_forever answers_four service two_servers question) ! 20
       = \<lparr>req_model = ''claude'', req_max_tokens = 1000,
          req_messages = [\<lparr>param_role = role_user,
                           param_content = Plain (summary_prompt ''What is 2+2?'')\<rparr>],
          req_tools = None\<rparr>
   \<and> invoked_of (sendMessage asks_forever answers_four service two_servers question)
       = map (\<lambda>k. (''add'', JObj [(''a'', JNum (int k)), (''b'', JNum 2)])) [0..<20]"
proof -
  have a: "anthropic service" by (simp add: service_def)
  have b: "question \<noteq> []" by (simp add: question_def)
  have blocks: "response_blocks asks_forever k
                 = [ToolUseBlock ''add'' (JObj [(''a'', JNum (int k)), (''b'', JNum 2)])]" for k
    by (simp add: response_blocks_def asks_forever_def)
  have c: "\<forall>k < maxIterations. \<not> isl (messages_create asks_forever k)
                             \<and> tool_uses (response_blocks asks_forever k) \<noteq> []
                             \<and> list_all (\<lambda>c. is_object (snd c))
                                  (tool_uses (response_blocks asks_forever k))"
    by (simp add: blocks) (simp add: asks_forever_def)
  have e: "\<not> isl (messages_create asks_forever maxIterations)" by (simp add: asks_forever_def)
  have q: "summary_request (modelName service) question
       = \<lparr>req_model = ''claude'', req_max_tokens = 1000,
          req_messages = [\<lparr>param_role = role_user,
                           param_content = Plain (summary_prompt ''What is 2+2?'')\<rparr>],
          req_tools = None\<rparr>"
    by (simp add: summary_request_def service_def question_def text_block_def is_text_def
        text_or_empty_def)
  have "concat (map (\<lambda>k. [f k]) ks) = map f ks" for f :: "nat \<Rightarrow> string \<times> json" and ks
    by (induction ks) simp_all
  then have calls: "calls_upto asks_forever 0 20
       = map (\<lambda>k. (''add'', JObj [(''a'', JNum (int k)), (''b'', JNum 2)])) [0..<20]"
    by (simp add: calls_upto_def blocks del: upt_Suc)
  from iteration_cap [OF a b c e, of answers_four two_servers]
  show ?thesis by (simp add: q calls maxIterations_def del: upt_Suc)
qed

end
